theory Spec2Isabelle
  imports Main "HOL-Library.Word" "HOL-Library.Monad_Syntax"
begin

unbundle bit_operations_syntax

section \<open>Data model\<close>

type_synonym u8 = "8 word"
type_synonym u16 = "16 word"
type_synonym u32 = "32 word"

text \<open>
  Modelled from the spec: the header \<^verbatim>\<open>se.h\<close> that declares \<^verbatim>\<open>seopcode_t\<close> is not part of
  the sources. The spec's data model lists the opcode as an enumerated command code with the
  members Read, Write, Nonce, GenDig, MAC, CheckMac and Info; the byte value that each one
  has on the wire is a parameter of the model (field \<open>opcode_byte\<close> below).
\<close>

datatype seopcode_t = OP_Read | OP_Write | OP_Nonce | OP_GenDig | OP_MAC | OP_CheckMac | OP_Info

text \<open>
  The collaborators and constants that the driver uses but does not define.

  Modelled from the spec: \<^verbatim>\<open>sha256.h\<close>, \<^verbatim>\<open>pprng.h\<close>, \<^verbatim>\<open>secrets.h\<close> and \<^verbatim>\<open>se-config.h\<close>
  are not part of the sources. \<open>sha256\<close> is the hash primitive (the digest of a whole
  message), \<open>rng\<close> the stream of bytes that the random source hands out,
  \<open>pairing_secret\<close> the 32-byte secret of the secret store and \<open>KEYNUM_pairing\<close> the number
  of the slot that holds it.
\<close>

record se_env =
  opcode_byte :: "seopcode_t \<Rightarrow> u8"
  sha256 :: "u8 list \<Rightarrow> u8 list"
  rng :: "nat \<Rightarrow> u8"
  pairing_secret :: "u8 list"
  KEYNUM_pairing :: u8

text \<open>
  The mutable state of the driver: the diagnostic counters that \<^verbatim>\<open>se_read\<close> maintains,
  the opcode of the command in flight, and the UART. The UART is seen from the driver's
  side: \<open>uart_tx\<close> holds every byte written to the transmit data register, most recent
  first; \<open>uart_rx\<close> holds the pulse trains still to arrive, where one train is the run of
  raw bytes that the receiver delivers before its timeout fires (an empty queue is a chip
  that stays silent). \<open>rng_pos\<close> counts the random bytes handed out so far. The three
  counters of \<^verbatim>\<open>_read_byte\<close> (\<^verbatim>\<open>rxne\<close>, \<^verbatim>\<open>rtof\<close>, \<^verbatim>\<open>notrxne\<close>), which tell the two kinds of
  timeout apart, are below the level of this model.
\<close>

record se_state =
  crc_errors :: u32
  not_ready_n :: u32
  short_error :: u32
  len_error :: u32
  len_error_two :: u32
  ln_retry :: u32
  retry_out :: u32
  wdgtimeout :: u32
  current_opcode :: seopcode_t
  uart_tx :: "u8 list"
  uart_rx :: "u8 list list"
  rng_pos :: nat

definition BIT0 :: u8 where "BIT0 = 0x7d"
definition BIT1 :: u8 where "BIT1 = 0x7f"

definition IOFLAG_CMD :: u8 where "IOFLAG_CMD = 0x77"
definition IOFLAG_TX :: u8 where "IOFLAG_TX = 0x88"
definition IOFLAG_IDLE :: u8 where "IOFLAG_IDLE = 0xBB"
definition IOFLAG_SLEEP :: u8 where "IOFLAG_SLEEP = 0xCC"

section \<open>Bit link\<close>

text \<open>\<^verbatim>\<open>_send_byte\<close>: after the bounded wait the byte is written to the data register.\<close>

definition send_byte :: "u8 \<Rightarrow> se_state \<Rightarrow> se_state" where
  "send_byte ch st = st\<lparr>uart_tx := ch # uart_tx st\<rparr>"

text \<open>\<^verbatim>\<open>_send_bits\<close>: the loop \<^verbatim>\<open>for (i=0; i<8; i++, mask <<= 1)\<close>.\<close>

function send_bits_loop :: "int \<Rightarrow> u8 \<Rightarrow> u8 \<Rightarrow> se_state \<Rightarrow> se_state" where
  "send_bits_loop i msk tx st =
     (if i < 8
      then let h = (if tx AND msk \<noteq> 0 then BIT1 else BIT0)
           in send_bits_loop (i + 1) (push_bit 1 msk) tx (send_byte h st)
      else st)"
  by pat_completeness auto
termination
  by (relation "measure (\<lambda>(i, msk, tx, st). nat (8 - i))") auto

declare send_bits_loop.simps [simp del]

definition send_bits :: "u8 \<Rightarrow> se_state \<Rightarrow> se_state" where
  "send_bits tx st = send_bits_loop 0 0x1 tx st"

text \<open>\<^verbatim>\<open>_send_serialized\<close>: \<^verbatim>\<open>for (i=0; i<len; i++) _send_bits(buf[i])\<close>.\<close>

function send_serialized_loop :: "int \<Rightarrow> u8 list \<Rightarrow> int \<Rightarrow> se_state \<Rightarrow> se_state" where
  "send_serialized_loop i buf len st =
     (if i < len
      then send_serialized_loop (i + 1) buf len (send_bits (buf ! nat i) st)
      else st)"
  by pat_completeness auto
termination
  by (relation "measure (\<lambda>(i, buf, len, st). nat (len - i))") auto

declare send_serialized_loop.simps [simp del]

definition send_serialized :: "u8 list \<Rightarrow> int \<Rightarrow> se_state \<Rightarrow> se_state" where
  "send_serialized buf len st = send_serialized_loop 0 buf len st"

text \<open>
  \<^verbatim>\<open>_read_byte\<close>: the next raw byte of the current train, cut to its low 7 bits, or -1
  when the receiver times out, which ends the train.
\<close>

fun read_byte :: "se_state \<Rightarrow> int \<times> se_state" where
  "read_byte st =
     (case uart_rx st of
        [] \<Rightarrow> (-1, st)
      | [] # ts \<Rightarrow> (-1, st\<lparr>uart_rx := ts\<rparr>)
      | (b # t) # ts \<Rightarrow> (uint (b AND 0x7f), st\<lparr>uart_rx := t # ts\<rparr>))"

text \<open>
  \<^verbatim>\<open>deserialize\<close>. The inner loop reads the 8 pulses at \<^verbatim>\<open>from\<close>; the outer loop writes one
  byte through \<^verbatim>\<open>into\<close> (here the buffer and the position reached in it) and moves
  \<^verbatim>\<open>from\<close> on by 8.
\<close>

function deserialize_bits :: "int \<Rightarrow> u8 \<Rightarrow> u8 list \<Rightarrow> u8 \<Rightarrow> u8" where
  "deserialize_bits i msk frm rv =
     (if i < 8
      then deserialize_bits (i + 1) (push_bit 1 msk) frm
             (if (frm ! nat i) XOR 0x7F < 2 then rv OR msk else rv)
      else rv)"
  by pat_completeness auto
termination
  by (relation "measure (\<lambda>(i, msk, frm, rv). nat (8 - i))") auto

declare deserialize_bits.simps [simp del]

function deserialize_loop :: "u8 list \<Rightarrow> int \<Rightarrow> u8 list \<Rightarrow> nat \<Rightarrow> int \<Rightarrow> u8 list" where
  "deserialize_loop frm from_len into pos max_into =
     (if from_len > 0
      then let rv = deserialize_bits 0 0x1 frm 0;
               into' = into[pos := rv]
           in if max_into - 1 \<le> 0 then into'
              else deserialize_loop (drop 8 frm) (from_len - 8) into' (pos + 1) (max_into - 1)
      else into)"
  by pat_completeness auto
termination
  by (relation "measure (\<lambda>(frm, from_len, into, pos, max_into). nat from_len)") auto

declare deserialize_loop.simps [simp del]

definition deserialize :: "u8 list \<Rightarrow> int \<Rightarrow> u8 list \<Rightarrow> int \<Rightarrow> u8 list" where
  "deserialize frm from_len into max_into = deserialize_loop frm from_len into 0 max_into"

section \<open>CRC\<close>

text \<open>
  \<^verbatim>\<open>se_crc16_chain\<close>. The inner loop runs while the 8-bit \<^verbatim>\<open>shift_register\<close> is not zero
  and shifts it left each round; the outer loop counts the bytes in an 8-bit counter.
  \<^verbatim>\<open>crc[2]\<close> is a pair of bytes.
\<close>

function crc_bit_loop :: "u8 \<Rightarrow> u8 \<Rightarrow> u16 \<Rightarrow> u16" where
  "crc_bit_loop shift_register d crc_register =
     (if shift_register > 0x00
      then let data_bit = (if d AND shift_register \<noteq> 0 then 1 else 0) :: u8;
               crc_bit = (ucast (drop_bit 15 crc_register)) :: u8;
               crc_register' = push_bit 1 crc_register
           in crc_bit_loop (push_bit 1 shift_register) d
                (if data_bit XOR crc_bit \<noteq> 0 then crc_register' XOR 0x8005 else crc_register')
      else crc_register)"
  by pat_completeness auto
termination
proof (relation "measure (\<lambda>(sr, d, reg). LEAST k. push_bit k sr = 0)")
  show "wf (measure (\<lambda>(sr :: u8, d :: u8, reg :: u16). LEAST k. push_bit k sr = 0))"
    by simp
next
  fix shift_register d :: u8 and crc_register x xa xb :: u16
  assume nz: "0 < shift_register"
  let ?m = "LEAST k. push_bit k shift_register = 0"
  have z8: "push_bit 8 shift_register = 0"
    by (rule bit_word_eqI) (simp add: bit_push_bit_iff)
  have m0: "push_bit ?m shift_register = 0"
    using z8 by (rule LeastI)
  have "?m \<noteq> 0"
  proof
    assume "?m = 0"
    with m0 have "push_bit 0 shift_register = 0"
      by (simp only:)
    then have "shift_register = 0"
      by (simp only: push_bit_0_id id_apply)
    with nz show False
      by simp
  qed
  then obtain j where j: "?m = Suc j"
    by (cases ?m) auto
  have "push_bit j (push_bit 1 shift_register) = 0"
    using m0 j by (simp add: push_bit_push_bit)
  then have "(LEAST k. push_bit k (push_bit 1 shift_register) = 0) \<le> j"
    by (rule Least_le)
  then show "((push_bit 1 shift_register, d, xb), (shift_register, d, crc_register))
      \<in> measure (\<lambda>(sr, d, reg). LEAST k. push_bit k sr = 0)"
    using j by simp
qed

declare crc_bit_loop.simps [simp del]

function crc_byte_loop :: "u8 \<Rightarrow> u8 \<Rightarrow> u8 list \<Rightarrow> u16 \<Rightarrow> u16" where
  "crc_byte_loop counter len data crc_register =
     (if counter < len
      then crc_byte_loop (counter + 1) len data
             (crc_bit_loop 0x01 (data ! unat counter) crc_register)
      else crc_register)"
  by pat_completeness auto
termination
proof (relation "measure (\<lambda>(counter, len, data, reg). unat len - unat counter)")
  show "wf (measure (\<lambda>(counter :: u8, len :: u8, data :: u8 list, reg :: u16).
          unat len - unat counter))"
    by simp
next
  fix counter len :: u8 and data :: "u8 list" and crc_register :: u16
  assume "counter < len"
  then have lt: "unat counter < unat len"
    by (simp only: word_less_nat_alt)
  have "unat len < 2 ^ LENGTH(8)"
    by (rule unsigned_less)
  with lt have "unat counter + unat (1 :: u8) < 2 ^ LENGTH(8)"
    by (simp only: unat_1)
  then have "unat (counter + 1) = unat counter + unat (1 :: u8)"
    by (simp only: unat_add_lem)
  then have suc: "unat (counter + 1) = Suc (unat counter)"
    by (simp only: unat_1 Suc_eq_plus1)
  have "unat len - unat (counter + 1) < unat len - unat counter"
    unfolding suc using lt by arith
  then show "((counter + 1, len, data, crc_bit_loop 1 (data ! unat counter) crc_register),
       (counter, len, data, crc_register))
      \<in> measure (\<lambda>(counter, len, data, reg). unat len - unat counter)"
    by (simp only: in_measure prod.case)
qed

declare crc_byte_loop.simps [simp del]

definition se_crc16_chain :: "u8 \<Rightarrow> u8 list \<Rightarrow> u8 \<times> u8 \<Rightarrow> u8 \<times> u8" where
  "se_crc16_chain len data crc =
     (let crc_register = ((ucast (fst crc) :: u16) AND 0x00FF) OR push_bit 8 (ucast (snd crc) :: u16);
          crc_register' = crc_byte_loop 0 len data crc_register
      in (ucast (crc_register' AND 0x00FF), ucast (drop_bit 8 crc_register')))"

section \<open>Frame transport\<close>

text \<open>
  \<^verbatim>\<open>_flush_rx\<close> waits for the transmitter, then drops what the receiver holds (the echo of
  the byte just sent) and clears its flags. The echo is not part of the pending trains, so
  the model state is unchanged.
\<close>

definition flush_rx :: "se_state \<Rightarrow> se_state" where
  "flush_rx st = st"

text \<open>
  The read loop of \<^verbatim>\<open>se_read_response\<close>: \<^verbatim>\<open>actual\<close> counts every byte received, and only
  the first \<^verbatim>\<open>max_expect\<close> of them are stored through \<^verbatim>\<open>p\<close>.
\<close>

function read_raw_loop :: "int \<Rightarrow> nat \<Rightarrow> u8 list \<Rightarrow> int \<Rightarrow> se_state \<Rightarrow> int \<times> u8 list \<times> se_state" where
  "read_raw_loop actual p raw max_expect st =
     (let (ch, st') = read_byte st
      in if ch < 0 then (actual, raw, st')
         else if actual < max_expect
              then read_raw_loop (actual + 1) (p + 1) (raw[p := word_of_int ch]) max_expect st'
              else read_raw_loop (actual + 1) p raw max_expect st')"
  by pat_completeness auto
termination
proof (relation "measure (\<lambda>(actual, p, raw, max_expect, st).
         (case uart_rx st of [] \<Rightarrow> 0 | t # ts \<Rightarrow> length t))")
qed (auto split: list.splits)

declare read_raw_loop.simps [simp del]

text \<open>
  \<^verbatim>\<open>se_read_response\<close>. The array \<^verbatim>\<open>raw\<close> starts out uninitialised (here: zeros); only the
  part that the read loop has filled is deserialized. The result is the count of whole
  bytes received, the buffer and the state.
\<close>

definition se_read_response :: "u8 list \<Rightarrow> int \<Rightarrow> se_state \<Rightarrow> int \<times> u8 list \<times> se_state" where
  "se_read_response buf max_len st =
     (let max_expect = (max_len + 1) * 8;
          raw = replicate (nat max_expect) 0;
          st1 = send_bits IOFLAG_TX st;
          st2 = flush_rx st1;
          (actual, raw', st3) = read_raw_loop 0 0 raw max_expect st2;
          actual' = actual AND NOT 7;
          buf' = deserialize raw' actual' buf max_len
      in (actual' div 8, buf', st3))"

text \<open>
  \<^verbatim>\<open>check_crc\<close>. \<^verbatim>\<open>length - 2\<close> is passed on as an 8-bit value. The two indices are only
  read once \<^verbatim>\<open>data[0]\<close> equals \<^verbatim>\<open>length\<close>; \<^verbatim>\<open>se_read\<close> calls it with \<^verbatim>\<open>data[0]\<close> at least 3.
  For \<^verbatim>\<open>length\<close> below 2 the C indices \<^verbatim>\<open>length - 2\<close> and \<^verbatim>\<open>length - 1\<close> are negative and the
  read lies before the array; the definition covers \<^verbatim>\<open>length\<close> from 2 on, and the indices
  are reached with \<^verbatim>\<open>length\<close> at least 3 in everything that follows.
\<close>

definition check_crc :: "u8 list \<Rightarrow> u8 \<Rightarrow> bool" where
  "check_crc data len =
     (let obs = (0, 0)
      in if data ! 0 \<noteq> len then False
         else let obs' = se_crc16_chain (len - 2) data obs
              in fst obs' = data ! (unat len - 2) \<and> snd obs' = data ! (unat len - 1))"

definition se_wake :: "se_state \<Rightarrow> se_state" where
  "se_wake st = send_byte 0x00 st"

definition se_sleep :: "se_state \<Rightarrow> se_state" where
  "se_sleep st = send_bits IOFLAG_SLEEP st"

definition se_idle :: "se_state \<Rightarrow> se_state" where
  "se_idle st = send_bits IOFLAG_IDLE st"

text \<open>
  \<^verbatim>\<open>se_write\<close>. The struct \<^verbatim>\<open>known\<close> is the list of its six bytes; a null \<^verbatim>\<open>data\<close> is the
  empty list. The busy bar of the display is outside the model.
\<close>

definition se_write :: "se_env \<Rightarrow> seopcode_t \<Rightarrow> u8 \<Rightarrow> u16 \<Rightarrow> u8 list \<Rightarrow> u8 \<Rightarrow> se_state \<Rightarrow> se_state" where
  "se_write env opcode p1 p2 data data_len st =
     (let known = [IOFLAG_CMD, data_len + 7, opcode_byte env opcode, p1,
                   ucast (p2 AND 0xff), ucast (drop_bit 8 p2 AND 0xff)];
          st1 = st\<lparr>current_opcode := opcode\<rparr>;
          st2 = se_wake st1;
          st3 = send_serialized known 6 st2;
          crc = se_crc16_chain 5 (tl known) (0, 0);
          (st4, crc') = (if data_len \<noteq> 0
                         then (send_serialized data (uint data_len) st3,
                               se_crc16_chain data_len data crc)
                         else (st3, crc))
      in send_serialized [fst crc', snd crc'] 2 st4)"

text \<open>
  \<^verbatim>\<open>memcpy(dst, src, n)\<close>: the first \<open>n\<close> bytes of \<open>dst\<close> are replaced. A copy that would
  run past the end of either region has no defined result: \<open>None\<close>.
\<close>

definition memcpy :: "u8 list \<Rightarrow> u8 list \<Rightarrow> nat \<Rightarrow> u8 list option" where
  "memcpy dst src n =
     (if n \<le> length dst \<and> n \<le> length src then Some (take n src @ drop n dst) else None)"

text \<open>
  One round of the retry loop of \<^verbatim>\<open>se_read\<close>: either the function returns (\<open>Return rc\<close>)
  or the round ends at the label \<^verbatim>\<open>try_again\<close>. The result carries the caller's buffer,
  \<^verbatim>\<open>tmp\<close> and the state.
\<close>

datatype attempt = TryAgain | Return int

definition se_read_attempt ::
  "u8 list \<Rightarrow> u8 \<Rightarrow> u8 list \<Rightarrow> se_state \<Rightarrow> (attempt \<times> u8 list \<times> u8 list \<times> se_state) option" where
  "se_read_attempt data len tmp st =
     (let (actual, tmp', st1) = se_read_response tmp (uint len + 3) st
      in if actual < 4
         then (if actual = 0
               then Some (TryAgain, data, tmp', st1\<lparr>not_ready_n := not_ready_n st1 + 1\<rparr>)
               else Some (TryAgain, data, tmp', st1\<lparr>short_error := short_error st1 + 1\<rparr>))
         else if current_opcode st1 \<noteq> OP_Info \<and> uint (tmp' ! 0) \<noteq> uint len + 3
         then (let st2 = st1\<lparr>len_error := len_error st1 + 1\<rparr>
               in if tmp' ! 0 = 4
                  then (let st3 = st2\<lparr>len_error_two := len_error_two st2 + 1\<rparr>;
                            st4 = (if tmp' ! 1 = 0xEE
                                   then st3\<lparr>wdgtimeout := wdgtimeout st3 + 1\<rparr> else st3)
                        in Some (Return (- 1), data, tmp', st4))
                  else Some (TryAgain, data, tmp', st2))
         else if current_opcode st1 \<noteq> OP_Info \<and> \<not> check_crc tmp' (word_of_int actual)
         then Some (TryAgain, data, tmp', st1\<lparr>crc_errors := crc_errors st1 + 1\<rparr>)
         else (case memcpy data (tl tmp') (nat (actual - 3)) of
                 None \<Rightarrow> None
               | Some data' \<Rightarrow> Some (Return 0, data', tmp', send_bits IOFLAG_IDLE st1)))"

text \<open>The loop \<^verbatim>\<open>for (retry=100; retry >= 0; retry--)\<close> and what follows it.\<close>

function se_read_loop ::
  "int \<Rightarrow> u8 list \<Rightarrow> u8 \<Rightarrow> u8 list \<Rightarrow> se_state \<Rightarrow> (int \<times> u8 list \<times> se_state) option" where
  "se_read_loop retry data len tmp st =
     (if retry \<ge> 0
      then (case se_read_attempt data len tmp st of
              None \<Rightarrow> None
            | Some (Return rc, data', tmp', st') \<Rightarrow> Some (rc, data', st')
            | Some (TryAgain, data', tmp', st') \<Rightarrow>
                se_read_loop (retry - 1) data' len tmp' (st'\<lparr>ln_retry := ln_retry st' + 1\<rparr>))
      else Some (- 1, data, st\<lparr>retry_out := retry_out st + 1\<rparr>))"
  by pat_completeness auto
termination
  by (relation "measure (\<lambda>(retry, data, len, tmp, st). nat (retry + 1))") auto

declare se_read_loop.simps [simp del]

text \<open>\<^verbatim>\<open>se_read\<close>: \<^verbatim>\<open>tmp\<close> has \<^verbatim>\<open>1 + len + 2\<close> bytes, uninitialised (here: zeros).\<close>

definition se_read :: "u8 list \<Rightarrow> u8 \<Rightarrow> se_state \<Rightarrow> (int \<times> u8 list \<times> se_state) option" where
  "se_read data len st = se_read_loop 100 data len (replicate (1 + unat len + 2) 0) st"

definition se_read1 :: "se_state \<Rightarrow> (int \<times> se_state) option" where
  "se_read1 st =
     (case se_read [0] 1 st of
        None \<Rightarrow> None
      | Some (rc, data, st') \<Rightarrow> if rc < 0 then Some (- 1, st') else Some (uint (data ! 0), st'))"

section \<open>Collaborators\<close>

text \<open>
  Modelled from the spec: the streaming hash of \<^verbatim>\<open>sha256.h\<close> is not part of the sources.
  The spec describes it as init/update/final over one or more byte ranges; the context is
  the message fed so far, and \<^verbatim>\<open>sha256_final\<close> yields the digest of that message.
\<close>

type_synonym SHA256_CTX = "u8 list"

definition sha256_init :: SHA256_CTX where
  "sha256_init = []"

definition sha256_update :: "SHA256_CTX \<Rightarrow> u8 list \<Rightarrow> nat \<Rightarrow> SHA256_CTX" where
  "sha256_update ctx data len = ctx @ take len data"

definition sha256_final :: "se_env \<Rightarrow> SHA256_CTX \<Rightarrow> u8 list" where
  "sha256_final env ctx = sha256 env ctx"

text \<open>
  Modelled from the spec: \<^verbatim>\<open>rng_buffer\<close> of \<^verbatim>\<open>pprng.h\<close> is not part of the sources. It fills
  a buffer of the given length with the next bytes of the random source.
\<close>

definition rng_buffer :: "se_env \<Rightarrow> nat \<Rightarrow> se_state \<Rightarrow> u8 list \<times> se_state" where
  "rng_buffer env n st =
     (map (rng env) [rng_pos st ..< rng_pos st + n], st\<lparr>rng_pos := rng_pos st + n\<rparr>)"

definition copyright_msg :: "u8 list" where
  "copyright_msg = map (\<lambda>c. of_nat (of_char c)) ''(C) 2020 Foundation Devices Inc.''"

section \<open>Authentication protocol\<close>

text \<open>
  The functions below return \<open>None\<close> when a \<^verbatim>\<open>memcpy\<close> below them has no defined result,
  and otherwise the C return value, the output buffer where there is one, and the state.
  Local arrays that C leaves uninitialised start as zeros.
\<close>

definition se_pick_nonce ::
  "se_env \<Rightarrow> u8 list \<Rightarrow> u8 list \<Rightarrow> se_state \<Rightarrow> (int \<times> u8 list \<times> se_state) option" where
  "se_pick_nonce env num_in tempkey st =
     (let st1 = se_write env OP_Nonce 0 0 num_in 20 st
      in case se_read (replicate 32 0) 32 st1 of
           None \<Rightarrow> None
         | Some (rc, randout, st2) \<Rightarrow>
             (let st3 = se_sleep st2
              in if rc < 0 then Some (- 1, tempkey, st3)
                 else (let ctx = sha256_init;
                           ctx = sha256_update ctx randout 32;
                           ctx = sha256_update ctx num_in 20;
                           fixed = [0x16, 0, 0];
                           ctx = sha256_update ctx fixed 3
                       in Some (0, sha256_final env ctx, st3))))"

definition se_gendig_slot ::
  "se_env \<Rightarrow> int \<Rightarrow> u8 list \<Rightarrow> u8 list \<Rightarrow> se_state \<Rightarrow> (int \<times> u8 list \<times> se_state) option" where
  "se_gendig_slot env slot_num slot_contents digest st =
     (let (num_in, st1) = rng_buffer env 20 st
      in case se_pick_nonce env num_in (replicate 32 0) st1 of
           None \<Rightarrow> None
         | Some (rc, tempkey, st2) \<Rightarrow>
             if rc < 0 then Some (- 1, digest, st2)
             else (let st3 = se_write env OP_GenDig 0x2 (word_of_int slot_num) [] 0 st2
                   in case se_read1 st3 of
                        None \<Rightarrow> None
                      | Some (rc, st4) \<Rightarrow>
                          (let st5 = se_sleep st4
                           in if rc \<noteq> 0 then Some (- 1, digest, st5)
                              else (let ctx = sha256_init;
                                        args = [opcode_byte env OP_GenDig, 2, word_of_int slot_num,
                                                0, 0xEE, 0x01, 0x23];
                                        zeros = replicate 25 0;
                                        ctx = sha256_update ctx slot_contents 32;
                                        ctx = sha256_update ctx args 7;
                                        ctx = sha256_update ctx zeros 25;
                                        ctx = sha256_update ctx tempkey 32
                                    in Some (0, sha256_final env ctx, st5)))))"

text \<open>
  \<^verbatim>\<open>se_checkmac\<close>. The request struct is the list of its 77 bytes. The two branches that
  only log (\<^verbatim>\<open>ERR\<close>, \<^verbatim>\<open>ERRV\<close>) leave no trace in the model.
\<close>

definition se_checkmac :: "se_env \<Rightarrow> u8 \<Rightarrow> u8 list \<Rightarrow> se_state \<Rightarrow> (int \<times> se_state) option" where
  "se_checkmac env keynum secret st =
     (let (od, st1) = rng_buffer env 32 st;
          (numin, st2) = rng_buffer env 20 st1;
          zeros = replicate 8 0
      in case se_pick_nonce env numin (replicate 32 0) st2 of
           None \<Rightarrow> None
         | Some (rc, tempkey, st3) \<Rightarrow>
             if rc < 0 then Some (- 1, st3)
             else (let ctx = sha256_init;
                       ctx = sha256_update ctx secret 32;
                       ctx = sha256_update ctx tempkey 32;
                       ctx = sha256_update ctx (drop 0 od) 4;
                       ctx = sha256_update ctx zeros 8;
                       ctx = sha256_update ctx (drop 4 od) 3;
                       sn8 = [0xEE];
                       ctx = sha256_update ctx sn8 1;
                       ctx = sha256_update ctx (drop 7 od) 4;
                       sn01 = [0x01, 0x23];
                       ctx = sha256_update ctx sn01 2;
                       ctx = sha256_update ctx (drop 11 od) 2;
                       req = take 32 copyright_msg @ sha256_final env ctx @ take 13 od;
                       st4 = se_write env OP_CheckMac 0x01 (ucast keynum) req 77 st3
                   in case se_read1 st4 of
                        None \<Rightarrow> None
                      | Some (rc, st5) \<Rightarrow>
                          (let st6 = se_sleep st5
                           in if rc \<noteq> 0 then Some (- 2, st6) else Some (0, st6))))"

function se_pair_unlock_loop :: "se_env \<Rightarrow> int \<Rightarrow> int \<Rightarrow> se_state \<Rightarrow> (int \<times> se_state) option" where
  "se_pair_unlock_loop env i attempts st =
     (if i < attempts
      then (case se_checkmac env (KEYNUM_pairing env) (pairing_secret env) st of
              None \<Rightarrow> None
            | Some (rc, st') \<Rightarrow>
                if rc = 0 then Some (0, st') else se_pair_unlock_loop env (i + 1) attempts st')
      else Some (- 1, st))"
  by pat_completeness auto
termination
  by (relation "measure (\<lambda>(env, i, attempts, st). nat (attempts - i))") auto

declare se_pair_unlock_loop.simps [simp del]

definition se_pair_unlock :: "se_env \<Rightarrow> se_state \<Rightarrow> (int \<times> se_state) option" where
  "se_pair_unlock env st = se_pair_unlock_loop env 0 3 st"

definition se_encrypted_write32 ::
  "se_env \<Rightarrow> int \<Rightarrow> int \<Rightarrow> int \<Rightarrow> u8 list \<Rightarrow> u8 list \<Rightarrow> se_state \<Rightarrow> (int \<times> se_state) option" where
  "se_encrypted_write32 env data_slot blk write_kn write_key data st =
     (case se_pair_unlock env st of
        None \<Rightarrow> None
      | Some (rc, st1) \<Rightarrow>
          if rc < 0 then Some (- 1, st1)
          else (case se_gendig_slot env write_kn write_key (replicate 32 0) st1 of
                  None \<Rightarrow> None
                | Some (rc, digest, st2) \<Rightarrow>
                    if rc < 0 then Some (- 1, st2)
                    else (let body = map (\<lambda>i. (data ! i) XOR (digest ! i)) [0..<32];
                              ctx = sha256_init;
                              p1 = 0x80 OR 2;
                              p2_lsb = (word_of_int (push_bit 3 data_slot)) :: u8;
                              p2_msb = (word_of_int blk) :: u8;
                              args = [opcode_byte env OP_Write, p1, p2_lsb, p2_msb, 0xEE, 0x01, 0x23];
                              zeros = replicate 25 0;
                              ctx = sha256_update ctx digest 32;
                              ctx = sha256_update ctx args 7;
                              ctx = sha256_update ctx zeros 25;
                              ctx = sha256_update ctx data 32;
                              body = body @ sha256_final env ctx;
                              st3 = se_write env OP_Write p1
                                      (push_bit 8 (ucast p2_msb) OR ucast p2_lsb) body 64 st2
                          in case se_read1 st3 of
                               None \<Rightarrow> None
                             | Some (rc, st4) \<Rightarrow>
                                 (let st5 = se_sleep st4
                                  in if rc \<noteq> 0 then Some (- 1, st5) else Some (0, st5)))))"

text \<open>
  \<^verbatim>\<open>se_encrypted_write\<close>: the loop \<^verbatim>\<open>for (blk=0; blk<3 && len>0; blk++, len-=32)\<close>, where
  \<^verbatim>\<open>data+(32*blk)\<close> is the caller's buffer from that offset on.
\<close>

function se_encrypted_write_loop ::
  "se_env \<Rightarrow> int \<Rightarrow> int \<Rightarrow> u8 list \<Rightarrow> u8 list \<Rightarrow> int \<Rightarrow> int \<Rightarrow> se_state \<Rightarrow> (int \<times> se_state) option" where
  "se_encrypted_write_loop env data_slot write_kn write_key data blk len st =
     (if blk < 3 \<and> len > 0
      then (let here = min 32 len
            in case memcpy (replicate 32 0) (drop (nat (32 * blk)) data) (nat here) of
                 None \<Rightarrow> None
               | Some tmp \<Rightarrow>
                   (case se_encrypted_write32 env data_slot blk write_kn write_key tmp st of
                      None \<Rightarrow> None
                    | Some (rv, st') \<Rightarrow>
                        if rv < 0 then Some (- 1, st')
                        else se_encrypted_write_loop env data_slot write_kn write_key data
                               (blk + 1) (len - 32) st'))
      else Some (0, st))"
  by pat_completeness auto
termination
  by (relation "measure (\<lambda>(env, data_slot, write_kn, write_key, data, blk, len, st). nat (3 - blk))")
    auto

declare se_encrypted_write_loop.simps [simp del]

definition se_encrypted_write ::
  "se_env \<Rightarrow> int \<Rightarrow> int \<Rightarrow> u8 list \<Rightarrow> u8 list \<Rightarrow> int \<Rightarrow> se_state \<Rightarrow> (int \<times> se_state) option" where
  "se_encrypted_write env data_slot write_kn write_key data len st =
     se_encrypted_write_loop env data_slot write_kn write_key data 0 len st"

section \<open>Auxiliary definitions for the proofs\<close>

text \<open>
  The pulses of one byte on the wire, bit 0 first, and of a sequence of bytes; \<open>emit\<close>
  records pulses as sent.
\<close>

definition pulses_of :: "u8 \<Rightarrow> u8 list" where
  "pulses_of b = map (\<lambda>i. if bit b i then BIT1 else BIT0) [0..<8]"

definition serialize :: "u8 list \<Rightarrow> u8 list" where
  "serialize bs = concat (map pulses_of bs)"

definition emit :: "u8 list \<Rightarrow> se_state \<Rightarrow> se_state" where
  "emit ps st = st\<lparr>uart_tx := rev ps @ uart_tx st\<rparr>"

definition pulse_is_one :: "u8 \<Rightarrow> bool" where
  "pulse_is_one p = (p = 0x7E \<or> p = 0x7F)"

text \<open>What the read loop leaves in \<^verbatim>\<open>raw\<close> after the train \<open>t\<close>.\<close>

fun store :: "int \<Rightarrow> nat \<Rightarrow> u8 list \<Rightarrow> int \<Rightarrow> u8 list \<Rightarrow> u8 list" where
  "store a p raw me [] = raw"
| "store a p raw me (b # t) =
     (if a < me then store (a + 1) (p + 1) (raw[p := b AND 0x7f]) me t
      else store (a + 1) p raw me t)"

text \<open>The train that the next read will receive, and the bytes that it decodes to.\<close>

definition rx_head :: "se_state \<Rightarrow> u8 list" where
  "rx_head st = (case uart_rx st of [] \<Rightarrow> [] | t # ts \<Rightarrow> t)"

definition decode_train :: "nat \<Rightarrow> u8 list \<Rightarrow> u8 list" where
  "decode_train n t =
     map (\<lambda>j. deserialize_bits 0 0x1 (drop (8 * j) (map (\<lambda>b. b AND 0x7f) t)) 0)
       [0..<min n (length t div 8)]"

text \<open>The CRC register as \<^verbatim>\<open>se_crc16_chain\<close> loads it from and stores it to \<^verbatim>\<open>crc[2]\<close>.\<close>

definition crc_pack :: "u8 \<times> u8 \<Rightarrow> u16" where
  "crc_pack crc = ((ucast (fst crc) :: u16) AND 0x00FF) OR push_bit 8 (ucast (snd crc) :: u16)"

definition crc_unpack :: "u16 \<Rightarrow> u8 \<times> u8" where
  "crc_unpack r = (ucast (r AND 0x00FF), ucast (drop_bit 8 r))"

text \<open>
  The bytes of a command as \<^verbatim>\<open>se_write\<close> sends them, and a response frame as the chip
  sends it: length byte, payload, CRC over both.
\<close>

definition command_bytes :: "se_env \<Rightarrow> seopcode_t \<Rightarrow> u8 \<Rightarrow> u16 \<Rightarrow> u8 list \<Rightarrow> u8 \<Rightarrow> u8 list" where
  "command_bytes env opcode p1 p2 data data_len =
     (let known = [IOFLAG_CMD, data_len + 7, opcode_byte env opcode, p1,
                   ucast (p2 AND 0xff), ucast (drop_bit 8 p2 AND 0xff)];
          crc = se_crc16_chain data_len data (se_crc16_chain 5 (tl known) (0, 0))
      in known @ take (unat data_len) data @ [fst crc, snd crc])"

definition frame :: "u8 list \<Rightarrow> u8 list" where
  "frame payload =
     (let body = of_nat (length payload + 3) # payload;
          crc = se_crc16_chain (of_nat (length body)) body (0, 0)
      in body @ [fst crc, snd crc])"

text \<open>A state with all counters at zero and the given trains pending.\<close>

definition ex_state :: "u8 list list \<Rightarrow> se_state" where
  "ex_state rx = \<lparr>crc_errors = 0, not_ready_n = 0, short_error = 0, len_error = 0,
     len_error_two = 0, ln_retry = 0, retry_out = 0, wdgtimeout = 0, current_opcode = OP_Read,
     uart_tx = [], uart_rx = rx, rng_pos = 0\<rparr>"

text \<open>The state after one pending train has been taken from the line.\<close>

definition consume :: "se_state \<Rightarrow> se_state" where
  "consume st = st\<lparr>uart_rx := tl (uart_rx st)\<rparr>"

text \<open>
  A train that makes an attempt of \<^verbatim>\<open>se_read\<close> start over: fewer than 4 bytes, or, for an
  opcode other than Info, a length byte that is neither \<open>len + 3\<close> nor 4, or a CRC that does
  not match. A train that the attempt accepts: 4 to \<open>len + 3\<close> bytes and, for an opcode
  other than Info, the length byte \<open>len + 3\<close> and a matching CRC.
\<close>

definition retryable :: "seopcode_t \<Rightarrow> u8 \<Rightarrow> u8 list \<Rightarrow> bool" where
  "retryable opcode len t =
     (let n = length t div 8;
          bs = decode_train (unat len + 3) t
      in n < 4 \<or>
         (opcode \<noteq> OP_Info \<and>
          (if uint (bs ! 0) \<noteq> uint len + 3 then bs ! 0 \<noteq> 4
           else \<not> check_crc bs (of_nat n))))"

definition accepted :: "seopcode_t \<Rightarrow> u8 \<Rightarrow> u8 list \<Rightarrow> bool" where
  "accepted opcode len t =
     (let n = length t div 8;
          bs = decode_train (unat len + 3) t
      in 4 \<le> n \<and> n \<le> unat len + 3 \<and>
         (opcode \<noteq> OP_Info \<longrightarrow> uint (bs ! 0) = uint len + 3 \<and> check_crc bs (of_nat n)))"

text \<open>
  The state after \<^verbatim>\<open>se_write\<close> has put a command on the line, and the state after one round of
  \<^verbatim>\<open>se_read\<close> has asked for the response, taken it, and put the chip back to idle.
\<close>

definition written :: "se_env \<Rightarrow> seopcode_t \<Rightarrow> u8 \<Rightarrow> u16 \<Rightarrow> u8 list \<Rightarrow> u8 \<Rightarrow> se_state \<Rightarrow> se_state" where
  "written env opcode p1 p2 data data_len st =
     emit (0 # serialize (command_bytes env opcode p1 p2 data data_len))
       (st\<lparr>current_opcode := opcode\<rparr>)"

definition answered :: "se_state \<Rightarrow> se_state" where
  "answered st = emit (pulses_of IOFLAG_IDLE) (consume (emit (pulses_of IOFLAG_TX) st))"

text \<open>
  An environment for the examples: the opcode bytes of the ATECC608A, a stand-in for SHA-256
  that returns 32 copies of the byte sum of its input, a counting random source, and a
  pairing secret.
\<close>

definition ex_env :: se_env where
  "ex_env = \<lparr>opcode_byte = (\<lambda>opcode. case opcode of OP_Read \<Rightarrow> 0x02 | OP_Write \<Rightarrow> 0x12
              | OP_Nonce \<Rightarrow> 0x16 | OP_GenDig \<Rightarrow> 0x15 | OP_MAC \<Rightarrow> 0x08 | OP_CheckMac \<Rightarrow> 0x28
              | OP_Info \<Rightarrow> 0x30),
     sha256 = (\<lambda>m. replicate 32 (sum_list m)), rng = (\<lambda>n. of_nat n),
     pairing_secret = replicate 32 0x55, KEYNUM_pairing = 1\<rparr>"

text \<open>
  The 77-byte request of \<^verbatim>\<open>se_checkmac\<close>: the first 32 bytes of the copyright message as
  challenge, the response digest, and the 13 bytes of other data.
\<close>

definition checkmac_req :: "se_env \<Rightarrow> u8 list \<Rightarrow> u8 list \<Rightarrow> u8 list \<Rightarrow> u8 list" where
  "checkmac_req env secret tempkey od =
     take 32 copyright_msg
     @ sha256 env (take 32 secret @ take 32 tempkey @ take 4 od @ replicate 8 0
         @ take 3 (drop 4 od) @ [0xEE] @ take 4 (drop 7 od) @ [0x01, 0x23] @ take 2 (drop 11 od))
     @ take 13 od"

text \<open>
  The blocks of a buffer as the description of \<^verbatim>\<open>se_encrypted_write\<close> has them: consecutive
  pieces of 32 bytes, the last one filled up with zeros; and the sequence of
  \<^verbatim>\<open>se_encrypted_write32\<close> calls on a list of blocks, numbered upwards from \<open>blk\<close>, that stops
  with -1 at the first call that fails. The loop of the source is compared with these.
\<close>

definition padded_blocks :: "u8 list \<Rightarrow> u8 list list" where
  "padded_blocks xs =
     map (\<lambda>b. take 32 (drop (32 * b) xs) @ replicate (32 - length (take 32 (drop (32 * b) xs))) 0)
       [0..<(length xs + 31) div 32]"

fun write_blocks ::
  "se_env \<Rightarrow> int \<Rightarrow> int \<Rightarrow> u8 list \<Rightarrow> int \<Rightarrow> u8 list list \<Rightarrow> se_state \<Rightarrow> (int \<times> se_state) option" where
  "write_blocks env data_slot write_kn write_key blk [] st = Some (0, st)"
| "write_blocks env data_slot write_kn write_key blk (b # bs) st =
     (case se_encrypted_write32 env data_slot blk write_kn write_key b st of
        None \<Rightarrow> None
      | Some (rv, st') \<Rightarrow>
          if rv < 0 then Some (- 1, st')
          else write_blocks env data_slot write_kn write_key (blk + 1) bs st')"

text \<open>
  The five responses that make one \<^verbatim>\<open>se_encrypted_write32\<close> succeed: a Nonce response and a
  0 byte for the pair unlock, the same for GenDig, and a 0 byte for the Write.
\<close>

definition ok_trains :: "u8 list \<Rightarrow> u8 list list" where
  "ok_trains r = [serialize (frame r), serialize (frame [0]), serialize (frame r),
     serialize (frame [0]), serialize (frame [0])]"

section \<open>Lemmas\<close>

lemma word_less_2: "((x :: u8) < 2) = (x = 0 \<or> x = 1)"
proof -
  have "(x < 2) = (unat x < 2)"
    by (simp add: word_less_nat_alt)
  also have "\<dots> = (unat x = 0 \<or> unat x = unat (1 :: u8))"
    by auto
  also have "\<dots> = (x = 0 \<or> x = 1)"
    by (simp only: unat_eq_zero word_unat_eq_iff [symmetric])
  finally show ?thesis .
qed

lemma pulse_test: "((p :: u8) XOR 0x7F < 2) = pulse_is_one p"
proof -
  have a: "(p XOR 0x7F = 0) = (p = 0x7F)"
  proof
    assume "p XOR 0x7F = 0"
    then have "(p XOR 0x7F) XOR 0x7F = 0 XOR 0x7F" by simp
    then show "p = 0x7F" by (simp add: xor.assoc)
  next
    assume "p = 0x7F" then show "p XOR 0x7F = 0" by simp
  qed
  have b: "(p XOR 0x7F = 1) = (p = 0x7E)"
  proof
    assume "p XOR 0x7F = 1"
    then have "(p XOR 0x7F) XOR 0x7F = 1 XOR 0x7F" by simp
    then show "p = 0x7E" by (simp add: xor.assoc)
  next
    assume "p = 0x7E" then show "p XOR 0x7F = 1" by simp
  qed
  show ?thesis
    unfolding word_less_2 a b pulse_is_one_def by auto
qed

lemma send_bits_loop_emit:
  "k \<le> 8 \<Longrightarrow> send_bits_loop (int k) (push_bit k 1) b st =
     emit (map (\<lambda>i. if bit b i then BIT1 else BIT0) [k..<8]) st"
proof (induction "8 - k" arbitrary: k st)
  case 0
  then have "k = 8" by simp
  then show ?case by (subst send_bits_loop.simps) (simp add: emit_def)
next
  case (Suc n)
  then have k: "k < 8" by simp
  have step: "send_bits_loop (int k) (push_bit k 1) b st =
      send_bits_loop (int (Suc k)) (push_bit (Suc k) 1) b
        (send_byte (if bit b k then BIT1 else BIT0) st)"
    using k bit_iff_and_push_bit_not_eq_0 [of b k] by (subst send_bits_loop.simps)
      (simp add: Let_def ac_simps)
  have "send_bits_loop (int (Suc k)) (push_bit (Suc k) 1) b (send_byte (if bit b k then BIT1 else BIT0) st)
      = emit (map (\<lambda>i. if bit b i then BIT1 else BIT0) [Suc k..<8])
          (send_byte (if bit b k then BIT1 else BIT0) st)"
    using Suc.hyps(1) [of "Suc k"] Suc.hyps(2) k by simp
  with step show ?case
    using k by (simp add: upt_conv_Cons emit_def send_byte_def)
qed

lemma send_bits_emit: "send_bits b st = emit (pulses_of b) st"
  using send_bits_loop_emit [of 0 b st] by (simp add: send_bits_def pulses_of_def)

lemma deserialize_bits_bit:
  "k \<le> 8 \<Longrightarrow> (\<And>i. k \<le> i \<Longrightarrow> \<not> bit rv i) \<Longrightarrow>
   bit (deserialize_bits (int k) (push_bit k 1) ps rv) i =
     (if i < k then bit rv i else i < 8 \<and> pulse_is_one (ps ! i))"
proof (induction "8 - k" arbitrary: k rv)
  case 0
  then have "k = 8" by simp
  then show ?case using 0(3) [of i]
    by (subst deserialize_bits.simps) auto
next
  case (Suc n)
  then have k: "k < 8" by simp
  let ?rv = "if pulse_is_one (ps ! k) then rv OR push_bit k 1 else rv"
  have step: "deserialize_bits (int k) (push_bit k 1) ps rv =
      deserialize_bits (int (Suc k)) (push_bit (Suc k) 1) ps ?rv"
    using k by (subst deserialize_bits.simps) (simp add: pulse_test ac_simps)
  have hi: "\<And>i. Suc k \<le> i \<Longrightarrow> \<not> bit ?rv i"
    using Suc.prems(2) by (auto simp: bit_or_iff bit_push_bit_iff bit_exp_iff)
  have "bit (deserialize_bits (int (Suc k)) (push_bit (Suc k) 1) ps ?rv) i =
     (if i < Suc k then bit ?rv i else i < 8 \<and> pulse_is_one (ps ! i))"
    using Suc.hyps(1) [of "Suc k" ?rv] Suc.hyps(2) k hi by simp
  then show ?case
    unfolding step using k Suc.prems(2) [of k]
    by (auto simp: bit_or_iff bit_push_bit_iff bit_exp_iff less_Suc_eq)
qed

lemma decode_bit:
  "bit (deserialize_bits 0 0x1 ps 0) i = (i < 8 \<and> pulse_is_one (ps ! i))"
  using deserialize_bits_bit [of 0 0 ps i] by simp

lemma pulse_is_one_BIT [simp]: "pulse_is_one BIT1" "\<not> pulse_is_one BIT0"
  by (simp_all add: pulse_is_one_def BIT0_def BIT1_def)

lemma length_pulses_of [simp]: "length (pulses_of b) = 8"
  by (simp add: pulses_of_def)

lemma nth_pulses_of: "i < 8 \<Longrightarrow> pulses_of b ! i = (if bit b i then BIT1 else BIT0)"
  by (simp add: pulses_of_def)

lemma decode_agree:
  "(\<And>i. i < 8 \<Longrightarrow> xs ! i = ys ! i) \<Longrightarrow> deserialize_bits 0 0x1 xs 0 = deserialize_bits 0 0x1 ys 0"
  by (rule bit_word_eqI) (simp add: decode_bit)

lemma decode_pulses_of: "deserialize_bits 0 0x1 (pulses_of b @ rest) 0 = b"
proof (rule bit_word_eqI)
  fix n assume "n < LENGTH(8)"
  then have n: "n < 8" by simp
  then show "bit (deserialize_bits 0 0x1 (pulses_of b @ rest) 0) n = bit b n"
    by (simp add: decode_bit nth_append nth_pulses_of)
qed

lemma int_and_not_7: "(x :: int) AND NOT 7 = 8 * (x div 8)"
proof -
  have m: "(7 :: int) = mask 3" by (simp add: mask_eq_exp_minus_1)
  have "x AND NOT (mask 3) = push_bit 3 (drop_bit 3 x)"
    by (rule bit_eqI) (auto simp: bit_simps)
  then show ?thesis
    unfolding m by (simp add: push_bit_eq_mult drop_bit_eq_div)
qed

lemma deserialize_loop_eq:
  "1 \<le> m \<Longrightarrow> pos + min k m \<le> length into \<Longrightarrow>
   deserialize_loop frm (8 * int k) into pos (int m) =
     take pos into @ map (\<lambda>j. deserialize_bits 0 0x1 (drop (8 * j) frm) 0) [0..<min k m]
       @ drop (pos + min k m) into"
proof (induction k arbitrary: frm into pos m)
  case 0
  then show ?case by (subst deserialize_loop.simps) simp
next
  case (Suc k)
  let ?rv = "deserialize_bits 0 0x1 frm 0"
  let ?into = "into[pos := ?rv]"
  have pos: "pos < length into" using Suc.prems by simp
  show ?case
  proof (cases "m = 1")
    case True
    then have "deserialize_loop frm (8 * int (Suc k)) into pos (int m) = ?into"
      by (subst deserialize_loop.simps) simp
    then show ?thesis using True pos by (simp add: upd_conv_take_nth_drop)
  next
    case False
    then have m: "2 \<le> m" using Suc.prems by simp
    then obtain m' where m': "m = Suc m'" "1 \<le> m'" by (cases m) auto
    have "deserialize_loop frm (8 * int (Suc k)) into pos (int m) =
        deserialize_loop (drop 8 frm) (8 * int k) ?into (pos + 1) (int m')"
      using m' by (subst deserialize_loop.simps) (simp add: Let_def)
    also have "\<dots> = take (pos + 1) ?into
        @ map (\<lambda>j. deserialize_bits 0 0x1 (drop (8 * j) (drop 8 frm)) 0) [0..<min k m']
        @ drop (pos + 1 + min k m') ?into"
      using Suc.prems m' by (intro Suc.IH) auto
    finally have eq: "deserialize_loop frm (8 * int (Suc k)) into pos (int m) =
        take (pos + 1) ?into
        @ map (\<lambda>j. deserialize_bits 0 0x1 (drop (8 * j) (drop 8 frm)) 0) [0..<min k m']
        @ drop (pos + 1 + min k m') ?into" .
    have t: "take (pos + 1) ?into = take pos into @ [?rv]"
      using pos by (simp add: take_Suc_conv_app_nth)
    have d: "drop (pos + 1 + min k m') ?into = drop (pos + Suc (min k m')) into"
      by simp
    have mn: "min (Suc k) m = Suc (min k m')"
      using m' by simp
    have upt: "[0..<Suc (min k m')] = 0 # map Suc [0..<min k m']"
      by (simp only: upt_conv_Cons [OF zero_less_Suc] map_Suc_upt)
    show ?thesis
      unfolding eq t d mn upt by (simp add: comp_def add.commute)
  qed
qed

lemma read_raw_loop_Nil: "uart_rx st = [] \<Longrightarrow> read_raw_loop a p raw me st = (a, raw, st)"
  by (subst read_raw_loop.simps) simp

lemma read_raw_loop_Cons:
  "uart_rx st = t # ts \<Longrightarrow>
   read_raw_loop a p raw me st = (a + int (length t), store a p raw me t, st\<lparr>uart_rx := ts\<rparr>)"
proof (induction t arbitrary: a p raw st)
  case Nil
  then show ?case by (subst read_raw_loop.simps) simp
next
  case (Cons b t)
  have rb: "read_byte st = (uint (b AND 0x7f), st\<lparr>uart_rx := t # ts\<rparr>)"
    using Cons.prems by simp
  have ih: "\<And>a p raw. read_raw_loop a p raw me (st\<lparr>uart_rx := t # ts\<rparr>) =
      (a + int (length t), store a p raw me t, st\<lparr>uart_rx := ts\<rparr>)"
    using Cons.IH [of "st\<lparr>uart_rx := t # ts\<rparr>"] by simp
  show ?case
    by (subst read_raw_loop.simps) (simp add: rb ih del: read_byte.simps)
qed

lemma length_store [simp]: "length (store a p raw me t) = length raw"
  by (induction t arbitrary: a p raw) auto

lemma nth_store:
  "i < length raw \<Longrightarrow>
   store (int p) p raw me t ! i =
     (if p \<le> i \<and> i < p + length t \<and> int i < me then (t ! (i - p)) AND 0x7f else raw ! i)"
proof (induction t arbitrary: p raw)
  case Nil
  then show ?case by auto
next
  case (Cons b t)
  show ?case
  proof (cases "int p < me")
    case True
    have "store (int p) p raw me (b # t) ! i = store (int (Suc p)) (Suc p) (raw[p := b AND 0x7f]) me t ! i"
      using True by (simp add: add.commute)
    also have "\<dots> = (if Suc p \<le> i \<and> i < Suc p + length t \<and> int i < me then (t ! (i - Suc p)) AND 0x7f
        else raw[p := b AND 0x7f] ! i)"
      using Cons.prems by (subst Cons.IH) auto
    finally show ?thesis
      using True Cons.prems by (auto simp: nth_list_update nth_Cons')
  next
    case False
    have st: "\<And>a p raw. me \<le> a \<Longrightarrow> store a p raw me t = raw" for t
      by (induction t) auto
    show ?thesis using False by (auto simp: st)
  qed
qed

lemma emit_simps [simp]:
  "uart_rx (emit ps st) = uart_rx st"
  "uart_tx (emit ps st) = rev ps @ uart_tx st"
  "current_opcode (emit ps st) = current_opcode st"
  "rng_pos (emit ps st) = rng_pos st"
  "crc_errors (emit ps st) = crc_errors st"
  "not_ready_n (emit ps st) = not_ready_n st"
  "short_error (emit ps st) = short_error st"
  "len_error (emit ps st) = len_error st"
  "len_error_two (emit ps st) = len_error_two st"
  "ln_retry (emit ps st) = ln_retry st"
  "retry_out (emit ps st) = retry_out st"
  "wdgtimeout (emit ps st) = wdgtimeout st"
  by (simp_all add: emit_def)

lemma emit_emit: "emit ps (emit qs st) = emit (qs @ ps) st"
  by (simp add: emit_def)

lemma emit_Nil [simp]: "emit [] st = st"
  by (simp add: emit_def)

lemma ff_mask: "(0xFF :: u16) = mask 8" by (simp add: mask_eq_exp_minus_1)

lemma crc_pack_unpack [simp]: "crc_pack (crc_unpack r) = r"
  unfolding crc_pack_def crc_unpack_def fst_conv snd_conv ff_mask
  by (rule bit_word_eqI) (auto simp add: bit_simps)

lemma crc_unpack_pack [simp]: "crc_unpack (crc_pack c) = c"
proof -
  have a: "ucast (crc_pack c AND 0x00FF) = fst c"
    unfolding crc_pack_def ff_mask
    by (rule bit_word_eqI) (auto simp add: bit_simps)
  have b: "ucast (drop_bit 8 (crc_pack c)) = snd c"
    unfolding crc_pack_def ff_mask
    by (rule bit_word_eqI) (auto simp add: bit_simps)
  show ?thesis
    unfolding crc_unpack_def a b by simp
qed

lemma crc_byte_loop_fold:
  "unat counter \<le> unat len \<Longrightarrow> 
   crc_byte_loop counter len data reg =
     fold (crc_bit_loop 0x01) (map (\<lambda>i. data ! i) [unat counter ..< unat len]) reg"
proof (induction counter len data reg rule: crc_byte_loop.induct)
  case (1 counter len data reg)
  show ?case
  proof (cases "counter < len")
    case True
    then have lt: "unat counter < unat len" by (simp add: word_less_nat_alt)
    moreover have "unat len < 2 ^ LENGTH(8)" by (rule unsigned_less)
    ultimately have "unat counter + unat (1 :: u8) < 2 ^ LENGTH(8)" by simp
    then have suc: "unat (counter + 1) = Suc (unat counter)"
      by (simp add: unat_add_lem [THEN iffD1])
    have "crc_byte_loop counter len data reg =
        crc_byte_loop (counter + 1) len data (crc_bit_loop 0x01 (data ! unat counter) reg)"
      using True by (subst crc_byte_loop.simps) simp
    also have "\<dots> = fold (crc_bit_loop 0x01) (map (\<lambda>i. data ! i) [unat (counter + 1) ..< unat len])
         (crc_bit_loop 0x01 (data ! unat counter) reg)"
      using "1.IH" [OF True] lt suc by simp
    finally show ?thesis
      using lt suc by (simp add: upt_conv_Cons)
  next
    case False
    then have "unat counter = unat len" using 1(2) by (simp add: word_less_nat_alt)
    then show ?thesis using False by (subst crc_byte_loop.simps) simp
  qed
qed

lemma map_nth_take: "n \<le> length xs \<Longrightarrow> map (\<lambda>i. xs ! i) [0..<n] = take n xs"
  by (rule nth_equalityI) auto

lemma se_crc16_chain_fold:
  "unat len \<le> length data \<Longrightarrow>
   se_crc16_chain len data crc =
     crc_unpack (fold (crc_bit_loop 0x01) (take (unat len) data) (crc_pack crc))"
  unfolding se_crc16_chain_def Let_def
  by (simp add: crc_byte_loop_fold map_nth_take crc_pack_def crc_unpack_def)

lemma se_crc16_chain_prefix:
  "unat len \<le> length xs \<Longrightarrow> se_crc16_chain len (xs @ ys) crc = se_crc16_chain len xs crc"
  by (simp add: se_crc16_chain_fold)

lemma unat_of_nat_u8: "n \<le> 255 \<Longrightarrow> unat (of_nat n :: u8) = n"
  by (simp add: unat_of_nat)

lemma se_crc16_chain_append:
  assumes "length xs + length ys \<le> 255"
  shows "se_crc16_chain (of_nat (length xs + length ys)) (xs @ ys) crc =
     se_crc16_chain (of_nat (length ys)) ys (se_crc16_chain (of_nat (length xs)) xs crc)"
proof -
  have u: "unat (of_nat (length xs + length ys) :: u8) = length xs + length ys"
    "unat (of_nat (length xs) :: u8) = length xs" "unat (of_nat (length ys) :: u8) = length ys"
    using assms by (simp_all only: unat_of_nat_u8)
  show ?thesis
    by (simp add: se_crc16_chain_fold u del: of_nat_add)
qed

lemma deserialize_one: "deserialize ps 8 [x] 1 = [deserialize_bits 0 0x1 ps 0]"
  using deserialize_loop_eq [of 1 0 1 "[x]" ps] by (simp add: deserialize_def)

lemma consume_simps [simp]:
  "uart_rx (consume st) = tl (uart_rx st)"
  "uart_tx (consume st) = uart_tx st"
  "current_opcode (consume st) = current_opcode st"
  "rng_pos (consume st) = rng_pos st"
  "crc_errors (consume st) = crc_errors st"
  "not_ready_n (consume st) = not_ready_n st"
  "short_error (consume st) = short_error st"
  "len_error (consume st) = len_error st"
  "len_error_two (consume st) = len_error_two st"
  "ln_retry (consume st) = ln_retry st"
  "retry_out (consume st) = retry_out st"
  "wdgtimeout (consume st) = wdgtimeout st"
  by (simp_all add: consume_def)

lemma rx_head_emit [simp]: "rx_head (emit ps st) = rx_head st"
  by (simp add: rx_head_def)

lemma read_raw_loop_eq:
  "read_raw_loop a p raw me st =
     (a + int (length (rx_head st)), store a p raw me (rx_head st), consume st)"
proof (cases "uart_rx st")
  case Nil
  then show ?thesis
    by (simp add: read_raw_loop_Nil rx_head_def consume_def)
next
  case (Cons t ts)
  then show ?thesis
    by (simp add: read_raw_loop_Cons rx_head_def consume_def)
qed

lemma length_decode_train [simp]: "length (decode_train n t) = min n (length t div 8)"
  by (simp add: decode_train_def)

lemma se_read_response_eq:
  assumes "1 \<le> max_len" and "length buf = nat max_len"
  shows "se_read_response buf max_len st =
     (int (length (rx_head st) div 8),
      decode_train (nat max_len) (rx_head st)
        @ drop (min (nat max_len) (length (rx_head st) div 8)) buf,
      consume (emit (pulses_of IOFLAG_TX) st))"
proof -
  define t where "t = rx_head st"
  define m where "m = nat max_len"
  define k where "k = length t div 8"
  define me where "me = (max_len + 1) * 8"
  define raw where "raw = store 0 0 (replicate (nat me) 0) me t"
  have m: "1 \<le> m" "int m = max_len"
    using assms by (simp_all add: m_def)
  have me: "me = int (8 * (m + 1))" "nat me = 8 * (m + 1)"
    using m by (simp_all add: me_def)
  have lraw: "length raw = 8 * (m + 1)"
    by (simp add: raw_def me)
  have dec: "deserialize_bits 0 0x1 (drop (8 * j) raw) 0 =
      deserialize_bits 0 0x1 (drop (8 * j) (map (\<lambda>b. b AND 0x7f) t)) 0" if j: "j < min k m" for j
  proof (rule decode_agree)
    fix i :: nat assume i: "i < 8"
    have b1: "8 * j + i < length t"
      using j i by (simp add: k_def) arith
    have b2: "8 * j + i < 8 * (m + 1)"
      using j i by simp
    have "drop (8 * j) raw ! i = raw ! (8 * j + i)"
      using b2 lraw by simp
    also have "\<dots> = (t ! (8 * j + i)) AND 0x7f"
      unfolding raw_def using nth_store [of "8 * j + i" "replicate (nat me) 0" 0 me t] b1 b2
      by (simp add: me)
    also have "\<dots> = drop (8 * j) (map (\<lambda>b. b AND 0x7f) t) ! i"
      using b1 by simp
    finally show "drop (8 * j) raw ! i = drop (8 * j) (map (\<lambda>b. b AND 0x7f) t) ! i" .
  qed
  have "deserialize raw (8 * int k) buf max_len =
      take 0 buf @ map (\<lambda>j. deserialize_bits 0 0x1 (drop (8 * j) raw) 0) [0..<min k m]
        @ drop (0 + min k m) buf"
    unfolding deserialize_def m(2) [symmetric]
    using m(1) assms(2) by (intro deserialize_loop_eq) (simp_all add: m_def)
  also have "map (\<lambda>j. deserialize_bits 0 0x1 (drop (8 * j) raw) 0) [0..<min k m] =
      decode_train m t"
    unfolding decode_train_def k_def [symmetric]
    by (rule map_cong) (simp_all add: dec min.commute)
  finally have des: "deserialize raw (8 * int k) buf max_len = decode_train m t @ drop (min m k) buf"
    by (simp add: min.commute)
  have a8: "int (length t) AND NOT 7 = 8 * int k"
    by (simp only: int_and_not_7 k_def zdiv_int of_nat_numeral)
  show ?thesis
    unfolding se_read_response_def Let_def send_bits_emit flush_rx_def read_raw_loop_eq
    using des a8 unfolding raw_def me_def t_def k_def m_def
    by simp
qed

lemma se_read_response_state:
  "snd (snd (se_read_response buf max_len st)) = consume (emit (pulses_of IOFLAG_TX) st)"
  unfolding se_read_response_def Let_def send_bits_emit flush_rx_def read_raw_loop_eq
  by simp

lemma length_serialize [simp]: "length (serialize bs) = 8 * length bs"
  by (induction bs) (simp_all add: serialize_def)

lemma serialize_Cons: "serialize (b # bs) = pulses_of b @ serialize bs"
  by (simp add: serialize_def)

lemma serialize_Nil [simp]: "serialize [] = []"
  by (simp add: serialize_def)

lemma serialize_append: "serialize (xs @ ys) = serialize xs @ serialize ys"
  by (simp add: serialize_def)

lemma drop_serialize: "drop (8 * j) (serialize bs) = serialize (drop j bs)"
proof (induction bs arbitrary: j)
  case Nil
  then show ?case by simp
next
  case (Cons b bs)
  show ?case
  proof (cases j)
    case 0
    then show ?thesis by simp
  next
    case (Suc j')
    then show ?thesis using Cons.IH [of j'] by (simp add: serialize_Cons)
  qed
qed

lemma mask7_BIT: "BIT0 AND 0x7f = BIT0" "BIT1 AND 0x7f = BIT1"
  by (simp_all add: BIT0_def BIT1_def)

lemma mask7_serialize: "map (\<lambda>b. b AND 0x7f) (serialize bs) = serialize bs"
proof -
  have "map (\<lambda>b. b AND 0x7f) (pulses_of b) = pulses_of b" for b
    by (simp add: pulses_of_def mask7_BIT)
  then show ?thesis
    by (induction bs) (simp_all add: serialize_Cons)
qed

lemma decode_train_serialize: "decode_train n (serialize bs) = take n bs"
proof -
  have "deserialize_bits 0 0x1 (drop (8 * j) (serialize bs)) 0 = bs ! j" if "j < length bs" for j
  proof -
    have "drop j bs = bs ! j # drop (Suc j) bs"
      using that by (simp add: Cons_nth_drop_Suc)
    then show ?thesis
      by (simp add: drop_serialize serialize_Cons decode_pulses_of)
  qed
  then have "decode_train n (serialize bs) = map (\<lambda>j. bs ! j) [0..<min n (length bs)]"
    by (simp add: decode_train_def mask7_serialize)
  then show ?thesis
    by (cases "n \<le> length bs") (simp_all add: map_nth_take min_def map_nth)
qed

lemma length_frame [simp]: "length (frame payload) = length payload + 3"
  by (simp add: frame_def Let_def)

lemma frame_parts:
  "frame payload = of_nat (length payload + 3) # payload @
     [fst (se_crc16_chain (of_nat (length payload + 1)) (of_nat (length payload + 3) # payload) (0, 0)),
      snd (se_crc16_chain (of_nat (length payload + 1)) (of_nat (length payload + 3) # payload) (0, 0))]"
  by (simp add: frame_def Let_def del: of_nat_add)

lemma check_crc_frame:
  assumes "length payload \<le> 252"
  shows "check_crc (frame payload) (of_nat (length payload + 3))"
proof -
  define n where "n = length payload"
  define body where "body = (of_nat (n + 3) :: u8) # payload"
  define c where "c = se_crc16_chain (of_nat (n + 1)) body (0, 0)"
  have f: "frame payload = body @ [fst c, snd c]"
    by (simp add: frame_parts body_def c_def n_def del: of_nat_add)
  have u3: "unat (of_nat (n + 3) :: u8) = n + 3"
    using assms by (intro unat_of_nat_u8) (simp add: n_def)
  have u1: "unat (of_nat (n + 1) :: u8) = n + 1"
    using assms by (intro unat_of_nat_u8) (simp add: n_def)
  have sub: "(of_nat (n + 3) :: u8) - 2 = of_nat (n + 1)"
    by simp
  have lb: "length body = n + 1"
    by (simp add: body_def n_def)
  have ch: "se_crc16_chain (of_nat (n + 1)) (body @ [fst c, snd c]) (0, 0) = c"
    unfolding c_def by (rule se_crc16_chain_prefix) (simp only: u1 lb order_refl)
  have h0: "(body @ [fst c, snd c]) ! 0 = of_nat (n + 3)"
    by (simp add: body_def)
  have i1: "(body @ [fst c, snd c]) ! (n + 1) = fst c"
    using lb by (simp add: nth_append)
  have i2: "(body @ [fst c, snd c]) ! (n + 2) = snd c"
    using lb by (simp add: nth_append)
  show ?thesis
    unfolding check_crc_def Let_def f n_def [symmetric] sub u3
    using h0 ch i1 i2 by (simp del: of_nat_add)
qed

lemma nat_uint_plus3 [simp]: "nat (uint (len :: u8) + 3) = unat len + 3"
  by (simp add: nat_add_distrib)

lemma se_read_response_tmp:
  assumes "length tmp = unat len + 3"
  shows "se_read_response tmp (uint len + 3) st =
     (int (length (rx_head st) div 8),
      decode_train (unat len + 3) (rx_head st)
        @ drop (min (unat len + 3) (length (rx_head st) div 8)) tmp,
      consume (emit (pulses_of IOFLAG_TX) st))"
proof -
  have e: "nat (uint len + 3) = unat len + 3"
    by (simp add: nat_add_distrib)
  have "se_read_response tmp (uint len + 3) st =
     (int (length (rx_head st) div 8),
      decode_train (nat (uint len + 3)) (rx_head st)
        @ drop (min (nat (uint len + 3)) (length (rx_head st) div 8)) tmp,
      consume (emit (pulses_of IOFLAG_TX) st))"
    by (rule se_read_response_eq) (simp_all add: assms e)
  then show ?thesis
    unfolding e .
qed

lemma crc_stale:
  assumes "uint (bs ! 0) = uint len + 3" and "length bs = min (unat len + 3) n" and "4 \<le> n"
    and "length tmp = unat len + 3"
  shows "check_crc (bs @ drop (min (unat len + 3) n) tmp) (of_nat n) = check_crc bs (of_nat n)"
proof (cases "unat len + 3 \<le> n")
  case True
  then show ?thesis using assms by simp
next
  case False
  then have n: "n < unat len + 3" by simp
  have "unat (bs ! 0) \<le> 255"
    using unsigned_less [of "bs ! 0", where 'a = nat] by simp
  moreover have "int (unat (bs ! 0)) = int (unat len + 3)"
    using assms(1) by simp
  then have b0: "unat (bs ! 0) = unat len + 3"
    by (simp only: of_nat_eq_iff)
  ultimately have "unat len + 3 \<le> 255"
    by (simp only:)
  then have "unat (of_nat n :: u8) = n"
    using n by (intro unat_of_nat_u8) simp
  then have ne: "bs ! 0 \<noteq> of_nat n"
    using b0 n by auto
  have "(bs @ drop (min (unat len + 3) n) tmp) ! 0 = bs ! 0"
    using assms(2,3) by (simp add: nth_append)
  then show ?thesis
    using ne by (simp add: check_crc_def)
qed

lemma retryable_Nil [simp]: "retryable opcode len []"
  by (simp add: retryable_def)

lemma attempt_retry:
  assumes len: "length tmp = unat len + 3"
    and r: "retryable (current_opcode st) len (rx_head st)"
  shows "\<exists>tmp' st'. se_read_attempt data len tmp st = Some (TryAgain, data, tmp', st')
      \<and> length tmp' = unat len + 3
      \<and> uart_rx st' = tl (uart_rx st) \<and> current_opcode st' = current_opcode st
      \<and> ln_retry st' = ln_retry st \<and> retry_out st' = retry_out st
      \<and> len_error_two st' = len_error_two st \<and> wdgtimeout st' = wdgtimeout st
      \<and> rng_pos st' = rng_pos st"
proof -
  define n where "n = length (rx_head st) div 8"
  define bs where "bs = decode_train (unat len + 3) (rx_head st)"
  define tmp' where "tmp' = bs @ drop (min (unat len + 3) n) tmp"
  define st1 where "st1 = consume (emit (pulses_of IOFLAG_TX) st)"
  have rr: "se_read_response tmp (uint len + 3) st = (int n, tmp', st1)"
    by (simp add: se_read_response_tmp [OF len] n_def bs_def tmp'_def st1_def)
  have lt: "length tmp' = unat len + 3"
    using len by (simp add: tmp'_def bs_def n_def)
  have lbs: "length bs = min (unat len + 3) n"
    by (simp add: bs_def n_def)
  show ?thesis
  proof (cases "n < 4")
    case True
    then show ?thesis
      unfolding se_read_attempt_def rr using lt by (auto simp: st1_def)
  next
    case False
    then have n4: "4 \<le> n" by simp
    have h0: "tmp' ! 0 = bs ! 0"
      using lbs n4 by (simp add: tmp'_def nth_append)
    from r False have op: "current_opcode st \<noteq> OP_Info"
      and c: "if uint (bs ! 0) \<noteq> uint len + 3 then bs ! 0 \<noteq> 4 else \<not> check_crc bs (of_nat n)"
      by (simp_all add: retryable_def Let_def n_def [symmetric] bs_def [symmetric])
    show ?thesis
    proof (cases "uint (bs ! 0) \<noteq> uint len + 3")
      case True
      with c have "bs ! 0 \<noteq> 4" by simp
      then show ?thesis
        unfolding se_read_attempt_def rr using lt True op n4 h0
        by (auto simp: st1_def Let_def)
    next
      case False
      with c have "\<not> check_crc bs (of_nat n)" by simp
      moreover have "check_crc tmp' (of_nat n) = check_crc bs (of_nat n)"
        unfolding tmp'_def using False lbs n4 len by (intro crc_stale) simp_all
      ultimately have "\<not> check_crc tmp' (word_of_int (int n))"
        by simp
      then show ?thesis
        unfolding se_read_attempt_def rr using lt False op n4 h0
        by (auto simp: st1_def Let_def)
    qed
  qed
qed

lemma attempt_accept:
  assumes len: "length tmp = unat len + 3"
    and a: "accepted (current_opcode st) len (rx_head st)"
    and d: "length data = unat len"
  shows "se_read_attempt data len tmp st =
     Some (Return 0,
       take (length (rx_head st) div 8 - 3) (tl (decode_train (unat len + 3) (rx_head st)))
         @ drop (length (rx_head st) div 8 - 3) data,
       decode_train (unat len + 3) (rx_head st)
         @ drop (min (unat len + 3) (length (rx_head st) div 8)) tmp,
       emit (pulses_of IOFLAG_IDLE) (consume (emit (pulses_of IOFLAG_TX) st)))"
proof -
  define n where "n = length (rx_head st) div 8"
  define bs where "bs = decode_train (unat len + 3) (rx_head st)"
  define tmp' where "tmp' = bs @ drop (min (unat len + 3) n) tmp"
  define st1 where "st1 = consume (emit (pulses_of IOFLAG_TX) st)"
  have rr: "se_read_response tmp (uint len + 3) st = (int n, tmp', st1)"
    by (simp add: se_read_response_tmp [OF len] n_def bs_def tmp'_def st1_def)
  from a have n4: "4 \<le> n" and nm: "n \<le> unat len + 3"
    and c: "current_opcode st \<noteq> OP_Info \<Longrightarrow> uint (bs ! 0) = uint len + 3 \<and> check_crc bs (of_nat n)"
    by (simp_all add: accepted_def Let_def n_def [symmetric] bs_def [symmetric])
  have lbs: "length bs = n"
    using nm by (simp add: bs_def n_def)
  have h0: "tmp' ! 0 = bs ! 0"
    using lbs n4 by (simp add: tmp'_def nth_append)
  have crc: "check_crc tmp' (word_of_int (int n))" if "current_opcode st \<noteq> OP_Info"
  proof -
    have "check_crc tmp' (of_nat n) = check_crc bs (of_nat n)"
      unfolding tmp'_def using c [OF that] lbs nm n4 len by (intro crc_stale) simp_all
    then show ?thesis using c [OF that] by simp
  qed
  have tl: "take (n - 3) (tl tmp') = take (n - 3) (tl bs)"
    using lbs n4 by (cases bs) (simp_all add: tmp'_def)
  have mc: "memcpy data (tl tmp') (nat (int n - 3)) = Some (take (n - 3) (tl bs) @ drop (n - 3) data)"
  proof -
    have "nat (int n - 3) = n - 3" by simp
    moreover have "n - 3 \<le> length data" using nm d by simp
    moreover have "n - 3 \<le> length (tl tmp')" using len nm by (simp add: tmp'_def lbs)
    ultimately show ?thesis by (simp add: memcpy_def tl)
  qed
  show ?thesis
  proof (cases "current_opcode st = OP_Info")
    case True
    then show ?thesis
      unfolding se_read_attempt_def rr prod.case Let_def
      using n4 mc
      by (simp add: st1_def send_bits_emit n_def bs_def tmp'_def)
  next
    case False
    then show ?thesis
      unfolding se_read_attempt_def rr prod.case Let_def
      using n4 c [OF False] crc [OF False] h0 mc
      by (simp add: st1_def send_bits_emit n_def bs_def tmp'_def)
  qed
qed

lemma rx_head_retryable:
  assumes "\<forall>t \<in> set (take (Suc k) (uart_rx st)). retryable opcode len t"
  shows "retryable opcode len (rx_head st)"
  using assms by (cases "uart_rx st") (simp_all add: rx_head_def)

lemma loop_exhaust:
  assumes "length tmp = unat len + 3"
    and "\<forall>t \<in> set (take k (uart_rx st)). retryable (current_opcode st) len t"
  shows "\<exists>st'. se_read_loop (int k - 1) data len tmp st = Some (- 1, data, st')
      \<and> uart_rx st' = drop k (uart_rx st) \<and> ln_retry st' = ln_retry st + of_nat k
      \<and> retry_out st' = retry_out st + 1 \<and> current_opcode st' = current_opcode st
      \<and> rng_pos st' = rng_pos st \<and> len_error_two st' = len_error_two st
      \<and> wdgtimeout st' = wdgtimeout st"
  using assms
proof (induction k arbitrary: tmp st)
  case 0
  show ?case
    by (subst se_read_loop.simps) simp
next
  case (Suc k)
  have r: "retryable (current_opcode st) len (rx_head st)"
    using Suc.prems(2) by (rule rx_head_retryable)
  obtain tmp' st1 where a: "se_read_attempt data len tmp st = Some (TryAgain, data, tmp', st1)"
    and l: "length tmp' = unat len + 3"
    and s: "uart_rx st1 = tl (uart_rx st)" "current_opcode st1 = current_opcode st"
      "ln_retry st1 = ln_retry st" "retry_out st1 = retry_out st"
      "len_error_two st1 = len_error_two st" "wdgtimeout st1 = wdgtimeout st"
      "rng_pos st1 = rng_pos st"
    using attempt_retry [OF Suc.prems(1) r, of data] by blast
  let ?st2 = "st1\<lparr>ln_retry := ln_retry st1 + 1\<rparr>"
  have sub: "set (take k (tl (uart_rx st))) \<subseteq> set (take (Suc k) (uart_rx st))"
    by (cases "uart_rx st") auto
  have "\<forall>t \<in> set (take k (uart_rx ?st2)). retryable (current_opcode ?st2) len t"
    using Suc.prems(2) sub s by auto
  from Suc.IH [OF l this] obtain st' where
    b: "se_read_loop (int k - 1) data len tmp' ?st2 = Some (- 1, data, st')"
    and t: "uart_rx st' = drop k (uart_rx ?st2)" "ln_retry st' = ln_retry ?st2 + of_nat k"
      "retry_out st' = retry_out ?st2 + 1" "current_opcode st' = current_opcode ?st2"
      "rng_pos st' = rng_pos ?st2" "len_error_two st' = len_error_two ?st2"
      "wdgtimeout st' = wdgtimeout ?st2"
    by blast
  have "se_read_loop (int (Suc k) - 1) data len tmp st = Some (- 1, data, st')"
    by (subst se_read_loop.simps) (simp add: a b)
  then show ?case
    using s t by (auto simp: drop_Suc)
qed

lemma loop_success:
  assumes "length tmp = unat len + 3" and "length data = unat len"
    and "\<forall>t \<in> set (take k (uart_rx st)). retryable (current_opcode st) len t"
    and "k < length (uart_rx st)"
    and "accepted (current_opcode st) len (uart_rx st ! k)"
    and "int k \<le> retry"
  shows "\<exists>st'. se_read_loop retry data len tmp st =
        Some (0, take (length (uart_rx st ! k) div 8 - 3)
                   (tl (decode_train (unat len + 3) (uart_rx st ! k)))
                 @ drop (length (uart_rx st ! k) div 8 - 3) data, st')
      \<and> uart_rx st' = drop (Suc k) (uart_rx st) \<and> ln_retry st' = ln_retry st + of_nat k
      \<and> retry_out st' = retry_out st \<and> current_opcode st' = current_opcode st
      \<and> rng_pos st' = rng_pos st"
  using assms
proof (induction k arbitrary: tmp st retry)
  case 0
  then obtain t ts where rx: "uart_rx st = t # ts"
    by (cases "uart_rx st") auto
  then have h: "rx_head st = t" "uart_rx st ! 0 = t"
    by (simp_all add: rx_head_def)
  have a: "accepted (current_opcode st) len (rx_head st)"
    using 0 h by simp
  show ?case
    using 0 rx
    by (subst se_read_loop.simps) (simp add: attempt_accept [OF "0.prems"(1) a "0.prems"(2)] h)
next
  case (Suc k)
  have r: "retryable (current_opcode st) len (rx_head st)"
    using Suc.prems(3) by (rule rx_head_retryable)
  obtain tmp' st1 where a: "se_read_attempt data len tmp st = Some (TryAgain, data, tmp', st1)"
    and l: "length tmp' = unat len + 3"
    and s: "uart_rx st1 = tl (uart_rx st)" "current_opcode st1 = current_opcode st"
      "ln_retry st1 = ln_retry st" "retry_out st1 = retry_out st"
      "rng_pos st1 = rng_pos st"
    using attempt_retry [OF Suc.prems(1) r, of data] by blast
  let ?st2 = "st1\<lparr>ln_retry := ln_retry st1 + 1\<rparr>"
  obtain t ts where rx: "uart_rx st = t # ts"
    using Suc.prems(4) by (cases "uart_rx st") auto
  have p1: "\<forall>t \<in> set (take k (uart_rx ?st2)). retryable (current_opcode ?st2) len t"
    using Suc.prems(3) s rx by auto
  have p2: "k < length (uart_rx ?st2)"
    using Suc.prems(4) s rx by simp
  have p3: "accepted (current_opcode ?st2) len (uart_rx ?st2 ! k)"
    using Suc.prems(5) s rx by simp
  have p4: "int k \<le> retry - 1"
    using Suc.prems(6) by simp
  from Suc.IH [OF l Suc.prems(2) p1 p2 p3 p4] obtain st' where
    b: "se_read_loop (retry - 1) data len tmp' ?st2 =
        Some (0, take (length (uart_rx ?st2 ! k) div 8 - 3)
                   (tl (decode_train (unat len + 3) (uart_rx ?st2 ! k)))
                 @ drop (length (uart_rx ?st2 ! k) div 8 - 3) data, st')"
    and t: "uart_rx st' = drop (Suc k) (uart_rx ?st2)" "ln_retry st' = ln_retry ?st2 + of_nat k"
      "retry_out st' = retry_out ?st2" "current_opcode st' = current_opcode ?st2"
      "rng_pos st' = rng_pos ?st2"
    by blast
  have e: "uart_rx ?st2 ! k = uart_rx st ! Suc k"
    using s rx by simp
  have "0 \<le> retry"
    using Suc.prems(6) by simp
  then have "se_read_loop retry data len tmp st = se_read_loop (retry - 1) data len tmp' ?st2"
    by (subst se_read_loop.simps) (simp add: a)
  then show ?case
    using b s t rx unfolding e by (auto simp: drop_Suc)
qed

lemma se_read_first:
  assumes "accepted (current_opcode st) len (rx_head st)" and "length data = unat len"
  shows "se_read data len st =
     Some (0, take (length (rx_head st) div 8 - 3) (tl (decode_train (unat len + 3) (rx_head st)))
              @ drop (length (rx_head st) div 8 - 3) data,
           emit (pulses_of IOFLAG_IDLE) (consume (emit (pulses_of IOFLAG_TX) st)))"
  unfolding se_read_def
  by (subst se_read_loop.simps) (simp add: attempt_accept [OF _ assms])



lemma accepted_frame:
  assumes "length payload = unat len" and "unat len \<le> 252" and "1 \<le> unat len"
  shows "accepted opcode len (serialize (frame payload))"
proof -
  have l: "length (frame payload) = unat len + 3"
    using assms by simp
  have h: "frame payload ! 0 = of_nat (unat len + 3)"
    using assms by (simp add: frame_parts del: of_nat_add)
  have "unat (of_nat (unat len + 3) :: u8) = unat len + 3"
    using assms by (intro unat_of_nat_u8) simp
  then have "int (unat (frame payload ! 0)) = int (unat len) + 3"
    unfolding h by simp
  then have u: "uint (frame payload ! 0) = uint len + 3"
    by simp
  have c: "check_crc (frame payload) (of_nat (unat len + 3))"
    using check_crc_frame [of payload] assms by simp
  show ?thesis
    unfolding accepted_def Let_def length_serialize decode_train_serialize
    using l u c assms by simp
qed

lemma payload_frame:
  assumes "length payload = unat len" and "length data = unat len"
  shows "take (length (serialize (frame payload)) div 8 - 3)
           (tl (decode_train (unat len + 3) (serialize (frame payload))))
         @ drop (length (serialize (frame payload)) div 8 - 3) data = payload"
  using assms by (simp add: decode_train_serialize frame_parts del: of_nat_add)

lemma retryable_garbage: "retryable OP_Read 32 (serialize [9, 9, 9, 9])"
  by (simp add: retryable_def decode_train_serialize)

lemma send_serialized_loop_emit:
  "i \<le> n \<Longrightarrow> n \<le> length buf \<Longrightarrow>
   send_serialized_loop (int i) buf (int n) st = emit (serialize (take (n - i) (drop i buf))) st"
proof (induction "n - i" arbitrary: i st)
  case 0
  then show ?case by (subst send_serialized_loop.simps) simp
next
  case (Suc k)
  then have i: "i < n" by simp
  have "send_serialized_loop (int i) buf (int n) st =
      send_serialized_loop (int (Suc i)) buf (int n) (emit (pulses_of (buf ! i)) st)"
    using i by (subst send_serialized_loop.simps) (simp add: send_bits_emit add.commute)
  also have "\<dots> = emit (serialize (take (n - Suc i) (drop (Suc i) buf))) (emit (pulses_of (buf ! i)) st)"
    using Suc.hyps(2) i Suc.prems by (intro Suc.hyps(1)) simp_all
  also have "\<dots> = emit (pulses_of (buf ! i) @ serialize (take (n - Suc i) (drop (Suc i) buf))) st"
    by (simp add: emit_emit)
  also have "pulses_of (buf ! i) @ serialize (take (n - Suc i) (drop (Suc i) buf)) =
      serialize (take (n - i) (drop i buf))"
  proof -
    have "drop i buf = buf ! i # drop (Suc i) buf"
      using i Suc.prems by (simp add: Cons_nth_drop_Suc)
    moreover have "n - i = Suc (n - Suc i)"
      using i by simp
    ultimately show ?thesis
      by (simp add: serialize_Cons)
  qed
  finally show ?case .
qed

lemma send_serialized_emit:
  "n \<le> length buf \<Longrightarrow> send_serialized buf (int n) st = emit (serialize (take n buf)) st"
  using send_serialized_loop_emit [of 0 n buf st] by (simp add: send_serialized_def)

lemma se_crc16_chain_0 [simp]: "se_crc16_chain 0 data crc = crc"
  using crc_unpack_pack [of crc]
  by (simp add: se_crc16_chain_def Let_def crc_byte_loop.simps crc_pack_def crc_unpack_def)

lemma se_write_written:
  assumes "unat data_len \<le> length data"
  shows "se_write env opcode p1 p2 data data_len st = written env opcode p1 p2 data data_len st"
proof -
  define known where "known = [IOFLAG_CMD, data_len + 7, opcode_byte env opcode, p1,
                   ucast (p2 AND 0xff), ucast (drop_bit 8 p2 AND 0xff)]"
  define crc where "crc = se_crc16_chain data_len data (se_crc16_chain 5 (tl known) (0, 0))"
  define st1 where "st1 = st\<lparr>current_opcode := opcode\<rparr>"
  have k: "send_serialized known 6 s = emit (serialize known) s" for s
    using send_serialized_emit [of 6 known s] by (simp add: known_def)
  have d: "send_serialized data (uint data_len) s = emit (serialize (take (unat data_len) data)) s" for s
    using send_serialized_emit [of "unat data_len" data s] assms by simp
  have c: "send_serialized [a, b] 2 s = emit (serialize [a, b]) s" for s a b
    using send_serialized_emit [of 2 "[a, b]" s] by simp
  have cb: "command_bytes env opcode p1 p2 data data_len =
      known @ take (unat data_len) data @ [fst crc, snd crc]"
    by (simp add: command_bytes_def Let_def known_def crc_def)
  have w: "se_write env opcode p1 p2 data data_len st =
      emit (serialize [fst crc, snd crc])
        (emit (serialize (take (unat data_len) data)) (emit (serialize known) (emit [0] st1)))"
  proof (cases "data_len = 0")
    case True
    then show ?thesis
      unfolding se_write_def known_def [symmetric] Let_def st1_def [symmetric]
      by (simp add: k c se_wake_def send_byte_def emit_def crc_def)
  next
    case False
    then show ?thesis
      unfolding se_write_def known_def [symmetric] Let_def st1_def [symmetric]
      by (simp add: k c d se_wake_def send_byte_def emit_def crc_def)
  qed
  show ?thesis
    unfolding w written_def cb st1_def [symmetric]
    by (simp add: emit_emit serialize_append)
qed

lemma written_simps [simp]:
  "uart_rx (written env opcode p1 p2 data data_len st) = uart_rx st"
  "current_opcode (written env opcode p1 p2 data data_len st) = opcode"
  "rng_pos (written env opcode p1 p2 data data_len st) = rng_pos st"
  "retry_out (written env opcode p1 p2 data data_len st) = retry_out st"
  "ln_retry (written env opcode p1 p2 data data_len st) = ln_retry st"
  "len_error_two (written env opcode p1 p2 data data_len st) = len_error_two st"
  "wdgtimeout (written env opcode p1 p2 data data_len st) = wdgtimeout st"
  "uart_tx (written env opcode p1 p2 data data_len st) =
     rev (0 # serialize (command_bytes env opcode p1 p2 data data_len)) @ uart_tx st"
  "rx_head (written env opcode p1 p2 data data_len st) = rx_head st"
  by (simp_all add: written_def rx_head_def)

lemma answered_simps [simp]:
  "uart_rx (answered st) = tl (uart_rx st)"
  "current_opcode (answered st) = current_opcode st"
  "rng_pos (answered st) = rng_pos st"
  "retry_out (answered st) = retry_out st"
  "ln_retry (answered st) = ln_retry st"
  "len_error_two (answered st) = len_error_two st"
  "wdgtimeout (answered st) = wdgtimeout st"
  "uart_tx (answered st) = rev (pulses_of IOFLAG_TX @ pulses_of IOFLAG_IDLE) @ uart_tx st"
  by (simp_all add: answered_def)

lemma se_sleep_emit: "se_sleep st = emit (pulses_of IOFLAG_SLEEP) st"
  by (simp add: se_sleep_def send_bits_emit)

lemma se_sleep_simps [simp]:
  "uart_rx (se_sleep st) = uart_rx st"
  "current_opcode (se_sleep st) = current_opcode st"
  "rng_pos (se_sleep st) = rng_pos st"
  "retry_out (se_sleep st) = retry_out st"
  "ln_retry (se_sleep st) = ln_retry st"
  "len_error_two (se_sleep st) = len_error_two st"
  "wdgtimeout (se_sleep st) = wdgtimeout st"
  "uart_tx (se_sleep st) = rev (pulses_of IOFLAG_SLEEP) @ uart_tx st"
  "rx_head (se_sleep st) = rx_head st"
  by (simp_all add: se_sleep_emit)

lemma rx_head_Cons: "uart_rx st = t # ts \<Longrightarrow> rx_head st = t"
  by (simp add: rx_head_def)

lemma se_read_frame:
  assumes "uart_rx st = serialize (frame payload) # rest"
    and "length payload = unat len" and "length data = unat len"
    and "1 \<le> unat len" and "unat len \<le> 252"
  shows "se_read data len st = Some (0, payload, answered st)"
proof -
  have h: "rx_head st = serialize (frame payload)"
    using assms(1) by (rule rx_head_Cons)
  have a: "accepted (current_opcode st) len (rx_head st)"
    unfolding h using assms by (intro accepted_frame) simp_all
  show ?thesis
    using se_read_first [OF a assms(3)] payload_frame [OF assms(2,3)]
    unfolding h by (simp add: answered_def)
qed

lemma se_read1_frame:
  assumes "uart_rx st = serialize (frame [c]) # rest"
  shows "se_read1 st = Some (uint c, answered st)"
  using se_read_frame [of st "[c]" rest 1 "[0]"] assms by (simp add: se_read1_def)

lemma se_read_exhaust:
  assumes "\<forall>t \<in> set (take 101 (uart_rx st)). retryable (current_opcode st) len t"
  shows "\<exists>st'. se_read data len st = Some (- 1, data, st')
         \<and> uart_rx st' = drop 101 (uart_rx st) \<and> ln_retry st' = ln_retry st + 101
         \<and> retry_out st' = retry_out st + 1 \<and> current_opcode st' = current_opcode st
         \<and> rng_pos st' = rng_pos st"
  using loop_exhaust [of "replicate (1 + unat len + 2) 0" len 101 st data, OF _ assms]
  unfolding se_read_def by auto

lemma se_read1_exhaust:
  assumes "\<forall>t \<in> set (take 101 (uart_rx st)). retryable (current_opcode st) 1 t"
  shows "\<exists>st'. se_read1 st = Some (- 1, st')
         \<and> uart_rx st' = drop 101 (uart_rx st) \<and> ln_retry st' = ln_retry st + 101
         \<and> retry_out st' = retry_out st + 1 \<and> current_opcode st' = current_opcode st
         \<and> rng_pos st' = rng_pos st"
  using se_read_exhaust [OF assms, of "[0]"] by (auto simp: se_read1_def)

lemma memcpy_length: "memcpy dst src n = Some d \<Longrightarrow> length d = length dst"
  by (auto simp: memcpy_def split: if_splits)

lemma attempt_length:
  "se_read_attempt data len tmp st = Some (a, d', t', st') \<Longrightarrow> length d' = length data"
  unfolding se_read_attempt_def
  by (auto simp: Let_def split: prod.splits if_splits option.splits dest: memcpy_length)

lemma loop_length:
  "se_read_loop retry data len tmp st = Some (rc, d', st') \<Longrightarrow> length d' = length data"
proof (induction retry data len tmp st rule: se_read_loop.induct)
  case (1 retry data len tmp st)
  show ?case
  proof (cases "retry \<ge> 0")
    case False
    then show ?thesis
      using "1.prems" by (subst (asm) se_read_loop.simps) auto
  next
    case True
    from "1.prems"(1) obtain a d1 t1 st1 where
      at: "se_read_attempt data len tmp st = Some (a, d1, t1, st1)"
      using True by (subst (asm) se_read_loop.simps) (auto split: option.splits)
    note l = attempt_length [OF at]
    show ?thesis
    proof (cases a)
      case TryAgain
      have "se_read_loop (retry - 1) d1 len t1 (st1\<lparr>ln_retry := ln_retry st1 + 1\<rparr>) =
          Some (rc, d', st')"
        using "1.prems"(1) True at TryAgain by (subst (asm) se_read_loop.simps) simp
      from "1.IH" [OF True at refl TryAgain refl refl this]
      show ?thesis using l by simp
    next
      case (Return x)
      then show ?thesis
        using "1.prems"(1) True at l by (subst (asm) se_read_loop.simps) auto
    qed
  qed
qed

lemma se_read_length: "se_read data len st = Some (rc, d', st') \<Longrightarrow> length d' = length data"
  unfolding se_read_def by (rule loop_length)

lemma ex_env_simps [simp]:
  "length (sha256 ex_env m) = 32"
  "length (pairing_secret ex_env) = 32"
  by (simp_all add: ex_env_def)

lemma ex_state_simps [simp]:
  "uart_rx (ex_state rx) = rx" "current_opcode (ex_state rx) = OP_Read"
  "rng_pos (ex_state rx) = 0" "retry_out (ex_state rx) = 0" "ln_retry (ex_state rx) = 0"
  "uart_tx (ex_state rx) = []" "len_error_two (ex_state rx) = 0" "wdgtimeout (ex_state rx) = 0"
  by (simp_all add: ex_state_def)

lemma sha256_chain:
  "sha256_final env (sha256_update ctx data n) = sha256 env (ctx @ take n data)"
  by (simp add: sha256_final_def sha256_update_def)

lemma se_pick_nonce_result:
  assumes "se_read (replicate 32 0) 32 (se_write env OP_Nonce 0 0 num_in 20 st) = Some (rc, randout, st2)"
  shows "se_pick_nonce env num_in tempkey st =
     (if rc < 0 then Some (- 1, tempkey, se_sleep st2)
      else Some (0, sha256 env (take 32 randout @ take 20 num_in @ [0x16, 0, 0]), se_sleep st2))"
  unfolding se_pick_nonce_def Let_def assms
  by (simp add: sha256_final_def sha256_update_def sha256_init_def)

lemma se_pick_nonce_ok:
  assumes "uart_rx st = serialize (frame rnd) # rest" and "length rnd = 32" and "20 \<le> length num_in"
  shows "se_pick_nonce env num_in tk st =
     Some (0, sha256 env (rnd @ take 20 num_in @ [0x16, 0, 0]),
           se_sleep (answered (written env OP_Nonce 0 0 num_in 20 st)))"
proof -
  have w: "se_write env OP_Nonce 0 0 num_in 20 st = written env OP_Nonce 0 0 num_in 20 st"
    using assms(3) by (intro se_write_written) simp
  have "se_read (replicate 32 0) 32 (written env OP_Nonce 0 0 num_in 20 st) =
      Some (0, rnd, answered (written env OP_Nonce 0 0 num_in 20 st))"
    using assms by (intro se_read_frame [where rest = rest]) simp_all
  then show ?thesis
    using se_pick_nonce_result [of env num_in st 0 rnd _ tk] assms(2) unfolding w by simp
qed

lemma se_pick_nonce_exhaust:
  assumes "\<forall>t \<in> set (take 101 (uart_rx st)). retryable OP_Nonce 32 t" and "20 \<le> length num_in"
  shows "\<exists>st'. se_pick_nonce env num_in tk st = Some (- 1, tk, st')
      \<and> uart_rx st' = drop 101 (uart_rx st) \<and> retry_out st' = retry_out st + 1
      \<and> rng_pos st' = rng_pos st"
proof -
  have w: "se_write env OP_Nonce 0 0 num_in 20 st = written env OP_Nonce 0 0 num_in 20 st"
    using assms(2) by (intro se_write_written) simp
  obtain st2 where r: "se_read (replicate 32 0) 32 (written env OP_Nonce 0 0 num_in 20 st) =
      Some (- 1, replicate 32 0, st2)"
    and s: "uart_rx st2 = drop 101 (uart_rx st)" "retry_out st2 = retry_out st + 1"
      "rng_pos st2 = rng_pos st"
    using se_read_exhaust [of "written env OP_Nonce 0 0 num_in 20 st" 32 "replicate 32 0"] assms(1)
    by auto
  show ?thesis
    using se_pick_nonce_result [of env num_in st "- 1" "replicate 32 0" st2 tk] r s
    unfolding w by simp
qed

lemma rng_buffer_simps [simp]:
  "fst (rng_buffer env n st) = map (rng env) [rng_pos st ..< rng_pos st + n]"
  "uart_rx (snd (rng_buffer env n st)) = uart_rx st"
  "rng_pos (snd (rng_buffer env n st)) = rng_pos st + n"
  "retry_out (snd (rng_buffer env n st)) = retry_out st"
  "current_opcode (snd (rng_buffer env n st)) = current_opcode st"
  "uart_tx (snd (rng_buffer env n st)) = uart_tx st"
  by (simp_all add: rng_buffer_def)

lemma se_gendig_slot_result:
  assumes "rng_buffer env 20 st = (num_in, st1)"
    and "se_pick_nonce env num_in (replicate 32 0) st1 = Some (rc, tempkey, st2)"
  shows "se_gendig_slot env slot_num slot_contents digest st =
     (if rc < 0 then Some (- 1, digest, st2)
      else (case se_read1 (se_write env OP_GenDig 0x2 (word_of_int slot_num) [] 0 st2) of
              None \<Rightarrow> None
            | Some (rc', st4) \<Rightarrow>
                if rc' \<noteq> 0 then Some (- 1, digest, se_sleep st4)
                else Some (0, sha256 env (take 32 slot_contents
                        @ [opcode_byte env OP_GenDig, 2, word_of_int slot_num, 0, 0xEE, 0x01, 0x23]
                        @ replicate 25 0 @ take 32 tempkey), se_sleep st4)))"
  unfolding se_gendig_slot_def Let_def assms prod.case
  by (simp add: sha256_final_def sha256_update_def sha256_init_def split: option.splits)

lemma se_gendig_slot_ok:
  assumes "uart_rx st = serialize (frame rnd) # serialize (frame [0]) # rest" and "length rnd = 32"
  shows "\<exists>st'. se_gendig_slot env slot_num slot_contents digest st =
       Some (0, sha256 env (take 32 slot_contents
               @ [opcode_byte env OP_GenDig, 2, word_of_int slot_num, 0, 0xEE, 0x01, 0x23]
               @ replicate 25 0
               @ take 32 (sha256 env (rnd @ map (rng env) [rng_pos st ..< rng_pos st + 20] @ [0x16, 0, 0]))),
             st')
     \<and> uart_rx st' = rest \<and> rng_pos st' = rng_pos st + 20 \<and> retry_out st' = retry_out st"
proof -
  define num_in where "num_in = map (rng env) [rng_pos st ..< rng_pos st + 20]"
  define st1 where "st1 = snd (rng_buffer env 20 st)"
  define st2 where "st2 = se_sleep (answered (written env OP_Nonce 0 0 num_in 20 st1))"
  define st3 where "st3 = written env OP_GenDig 0x2 (word_of_int slot_num) [] 0 st2"
  have rb: "rng_buffer env 20 st = (num_in, st1)"
    by (simp add: num_in_def st1_def rng_buffer_def)
  have n: "se_pick_nonce env num_in (replicate 32 0) st1 =
      Some (0, sha256 env (rnd @ take 20 num_in @ [0x16, 0, 0]), st2)"
    unfolding st2_def using assms
    by (intro se_pick_nonce_ok [where rest = "serialize (frame [0]) # rest"])
      (simp_all add: st1_def num_in_def)
  have w: "se_write env OP_GenDig 0x2 (word_of_int slot_num) [] 0 st2 = st3"
    unfolding st3_def by (intro se_write_written) simp
  have r: "se_read1 st3 = Some (0, answered st3)"
    using se_read1_frame [of st3 0 rest] assms(1)
    by (simp add: st3_def st2_def st1_def)
  show ?thesis
    using se_gendig_slot_result [OF rb n, of slot_num slot_contents digest] assms(1)
    unfolding w r
    by (simp add: st3_def st2_def st1_def num_in_def)
qed

lemma length_copyright_msg [simp]: "length copyright_msg = 32"
  by (simp add: copyright_msg_def)

lemma length_checkmac_req:
  "length (sha256 env (take 32 secret @ take 32 tempkey @ take 4 od @ replicate 8 0
         @ take 3 (drop 4 od) @ [0xEE] @ take 4 (drop 7 od) @ [0x01, 0x23] @ take 2 (drop 11 od))) = 32
   \<Longrightarrow> 13 \<le> length od \<Longrightarrow> length (checkmac_req env secret tempkey od) = 77"
  by (simp add: checkmac_req_def)

lemma se_checkmac_result:
  assumes "rng_buffer env 32 st = (od, st1)" and "rng_buffer env 20 st1 = (numin, st2)"
    and "se_pick_nonce env numin (replicate 32 0) st2 = Some (rc1, tempkey, st3)"
  shows "se_checkmac env keynum secret st =
     (if rc1 < 0 then Some (- 1, st3)
      else (case se_read1 (se_write env OP_CheckMac 0x01 (ucast keynum)
                             (checkmac_req env secret tempkey od) 77 st3) of
              None \<Rightarrow> None
            | Some (rc2, st5) \<Rightarrow> Some (if rc2 \<noteq> 0 then - 2 else 0, se_sleep st5)))"
  unfolding se_checkmac_def Let_def assms prod.case checkmac_req_def
  by (simp add: sha256_final_def sha256_update_def sha256_init_def split: option.splits)

lemma se_read1_range:
  "se_read1 st = Some (rc, st') \<Longrightarrow> rc = - 1 \<or> 0 \<le> rc \<and> rc \<le> 255"
proof -
  have "uint (b :: u8) \<le> 255" for b
    using uint_bounded [of b] by simp
  then show "se_read1 st = Some (rc, st') \<Longrightarrow> rc = - 1 \<or> 0 \<le> rc \<and> rc \<le> 255"
    by (auto simp: se_read1_def split: option.splits if_splits)
qed

lemma se_checkmac_ok:
  assumes "uart_rx st = serialize (frame rnd) # serialize (frame [0]) # rest" and "length rnd = 32"
    and "\<And>m. length (sha256 env m) = 32"
  shows "\<exists>st'. se_checkmac env keynum secret st = Some (0, st')
     \<and> uart_rx st' = rest \<and> rng_pos st' = rng_pos st + 52 \<and> retry_out st' = retry_out st"
proof -
  define od where "od = map (rng env) [rng_pos st ..< rng_pos st + 32]"
  define st1 where "st1 = snd (rng_buffer env 32 st)"
  define numin where "numin = map (rng env) [rng_pos st1 ..< rng_pos st1 + 20]"
  define st2 where "st2 = snd (rng_buffer env 20 st1)"
  define st3 where "st3 = se_sleep (answered (written env OP_Nonce 0 0 numin 20 st2))"
  define tk where "tk = sha256 env (rnd @ take 20 numin @ [0x16, 0, 0])"
  define req where "req = checkmac_req env secret tk od"
  define st4 where "st4 = written env OP_CheckMac 0x01 (ucast keynum) req 77 st3"
  have rb1: "rng_buffer env 32 st = (od, st1)"
    by (simp add: od_def st1_def rng_buffer_def)
  have rb2: "rng_buffer env 20 st1 = (numin, st2)"
    by (simp add: numin_def st2_def rng_buffer_def)
  have n: "se_pick_nonce env numin (replicate 32 0) st2 = Some (0, tk, st3)"
    unfolding st3_def tk_def using assms
    by (intro se_pick_nonce_ok [where rest = "serialize (frame [0]) # rest"])
      (simp_all add: st1_def st2_def numin_def)
  have lr: "length req = 77"
    unfolding req_def by (rule length_checkmac_req) (simp_all add: assms(3) od_def)
  have w: "se_write env OP_CheckMac 0x01 (ucast keynum) req 77 st3 = st4"
    unfolding st4_def by (intro se_write_written) (simp add: lr)
  have r: "se_read1 st4 = Some (0, answered st4)"
    using se_read1_frame [of st4 0 rest] assms(1)
    by (simp add: st4_def st3_def st2_def st1_def)
  show ?thesis
    using se_checkmac_result [OF rb1 rb2 n, of keynum secret] assms(1)
    unfolding req_def [symmetric] w r
    by (simp add: st4_def st3_def st2_def st1_def)
qed

lemma ex_checkmac_req_length [simp]:
  "length od = 32 \<Longrightarrow> length (checkmac_req ex_env secret tk od) = 77"
  by (rule length_checkmac_req) simp_all

lemma se_pair_unlock_ok:
  assumes "uart_rx st = serialize (frame rnd) # serialize (frame [0]) # rest" and "length rnd = 32"
    and "\<And>m. length (sha256 env m) = 32"
  shows "\<exists>st'. se_pair_unlock env st = Some (0, st')
     \<and> uart_rx st' = rest \<and> rng_pos st' = rng_pos st + 52 \<and> retry_out st' = retry_out st"
proof -
  obtain st' where c: "se_checkmac env (KEYNUM_pairing env) (pairing_secret env) st = Some (0, st')"
    and s: "uart_rx st' = rest" "rng_pos st' = rng_pos st + 52" "retry_out st' = retry_out st"
    using se_checkmac_ok [OF assms, of "KEYNUM_pairing env" "pairing_secret env"] by blast
  have "se_pair_unlock env st = Some (0, st')"
    unfolding se_pair_unlock_def by (subst se_pair_unlock_loop.simps) (simp add: c)
  then show ?thesis
    using s by blast
qed

lemma p2_split:
  fixes a b :: u8
  shows "ucast ((push_bit 8 (ucast b :: u16) OR ucast a) AND 0xff) = a"
    and "ucast (drop_bit 8 (push_bit 8 (ucast b :: u16) OR ucast a) AND 0xff) = b"
  unfolding ff_mask
  by (rule bit_word_eqI; auto simp add: bit_simps dest: bit_imp_le_length)+

lemma xor_map2:
  assumes "length data = 32" and "length digest = 32"
  shows "map (\<lambda>i. (data ! i) XOR (digest ! i)) [0..<32] = map2 (XOR) data digest"
  using assms by (intro nth_equalityI) simp_all

lemma se_encrypted_write32_result:
  assumes "se_pair_unlock env st = Some (rc1, st1)"
  shows "se_encrypted_write32 env data_slot blk write_kn write_key data st =
     (if rc1 < 0 then Some (- 1, st1)
      else (case se_gendig_slot env write_kn write_key (replicate 32 0) st1 of
              None \<Rightarrow> None
            | Some (rc2, digest, st2) \<Rightarrow>
                if rc2 < 0 then Some (- 1, st2)
                else (case se_read1 (se_write env OP_Write 0x82
                         (push_bit 8 (ucast (word_of_int blk :: u8))
                            OR ucast (word_of_int (push_bit 3 data_slot) :: u8))
                         (map (\<lambda>i. (data ! i) XOR (digest ! i)) [0..<32]
                          @ sha256 env (take 32 digest
                              @ [opcode_byte env OP_Write, 0x82,
                                 word_of_int (push_bit 3 data_slot), word_of_int blk,
                                 0xEE, 0x01, 0x23]
                              @ replicate 25 0 @ take 32 data))
                         64 st2) of
                        None \<Rightarrow> None
                      | Some (rc, st4) \<Rightarrow> Some (if rc \<noteq> 0 then - 1 else 0, se_sleep st4))))"
  unfolding se_encrypted_write32_def Let_def assms
  by (simp add: sha256_final_def sha256_update_def sha256_init_def split: option.splits)

lemma se_encrypted_write32_ok:
  assumes "uart_rx st = serialize (frame r1) # serialize (frame [0]) # serialize (frame r2)
      # serialize (frame [0]) # serialize (frame [0]) # rest"
    and "length r1 = 32" and "length r2 = 32" and "\<And>m. length (sha256 env m) = 32"
  shows "\<exists>st'. se_encrypted_write32 env data_slot blk write_kn write_key data st = Some (0, st')
     \<and> uart_rx st' = rest \<and> rng_pos st' = rng_pos st + 72 \<and> retry_out st' = retry_out st"
proof -
  obtain st1 where pu: "se_pair_unlock env st = Some (0, st1)"
    and s1: "uart_rx st1 = serialize (frame r2) # serialize (frame [0]) # serialize (frame [0]) # rest"
      "rng_pos st1 = rng_pos st + 52" "retry_out st1 = retry_out st"
    using se_pair_unlock_ok [OF assms(1,2,4)] by blast
  obtain digest st2 where gd: "se_gendig_slot env write_kn write_key (replicate 32 0) st1 =
      Some (0, digest, st2)"
    and s2: "uart_rx st2 = serialize (frame [0]) # rest" "rng_pos st2 = rng_pos st1 + 20"
      "retry_out st2 = retry_out st1"
    using se_gendig_slot_ok [OF s1(1) assms(3), of env write_kn write_key "replicate 32 0"] by blast
  define body where "body = map (\<lambda>i. (data ! i) XOR (digest ! i)) [0..<32]
      @ sha256 env (take 32 digest
          @ [opcode_byte env OP_Write, 0x82, word_of_int (push_bit 3 data_slot), word_of_int blk,
             0xEE, 0x01, 0x23]
          @ replicate 25 0 @ take 32 data)"
  define p2 :: u16 where "p2 = push_bit 8 (ucast (word_of_int blk :: u8))
      OR ucast (word_of_int (push_bit 3 data_slot) :: u8)"
  have lb: "length body = 64"
    by (simp add: body_def assms(4))
  have w: "se_write env OP_Write 0x82 p2 body 64 st2 = written env OP_Write 0x82 p2 body 64 st2"
    by (intro se_write_written) (simp add: lb)
  have r: "se_read1 (written env OP_Write 0x82 p2 body 64 st2) =
      Some (0, answered (written env OP_Write 0x82 p2 body 64 st2))"
    using se_read1_frame [of "written env OP_Write 0x82 p2 body 64 st2" 0 rest] s2 by simp
  have "se_encrypted_write32 env data_slot blk write_kn write_key data st =
      (case se_read1 (se_write env OP_Write 0x82 p2 body 64 st2) of
         None \<Rightarrow> None
       | Some (rc, st4) \<Rightarrow> Some (if rc \<noteq> 0 then - 1 else 0, se_sleep st4))"
    unfolding body_def p2_def
    using se_encrypted_write32_result [OF pu, of data_slot blk write_kn write_key data] gd
    by simp
  also have "\<dots> = Some (0, se_sleep (answered (written env OP_Write 0x82 p2 body 64 st2)))"
    unfolding w r by simp
  finally show ?thesis
    using s1 s2 by simp
qed

lemma write_loop_blocks:
  fixes L :: nat and data :: "u8 list"
  defines "xs \<equiv> take (min L 96) data"
  defines "nb \<equiv> (min L 96 + 31) div 32"
  defines "B \<equiv> \<lambda>b. take 32 (drop (32 * b) xs) @ replicate (32 - length (take 32 (drop (32 * b) xs))) 0"
  assumes "L \<le> length data" and "b \<le> nb"
  shows "se_encrypted_write_loop env data_slot write_kn write_key data (int b) (int L - 32 * int b) st =
     write_blocks env data_slot write_kn write_key (int b) (map B [b..<nb]) st"
  using assms(5)
proof (induction "nb - b" arbitrary: b st)
  case 0
  then have b: "b = nb" by simp
  have nb3: "nb \<le> 3" unfolding nb_def by arith
  have "\<not> (int b < 3 \<and> int L - 32 * int b > 0)"
  proof
    assume a: "int b < 3 \<and> int L - 32 * int b > 0"
    then have "32 * b < L" "b < 3" by auto
    then have "32 * b < min L 96" by simp
    then have "b < nb" unfolding nb_def by arith
    then show False using b by simp
  qed
  then have "se_encrypted_write_loop env data_slot write_kn write_key data (int b)
      (int L - 32 * int b) st = Some (0, st)"
    by (subst se_encrypted_write_loop.simps) (simp only: if_False)
  then show ?case
    using b by simp
next
  case (Suc k)
  then have b: "b < nb" by simp
  have nb3: "nb \<le> 3" unfolding nb_def by arith
  have b3: "b < 3" using b nb3 by simp
  have lt: "32 * b < min L 96"
    using b unfolding nb_def by arith
  then have bl: "32 * b < L" by simp
  define here where "here = min 32 (L - 32 * b)"
  have h1: "min 32 (int L - 32 * int b) = int here"
    using bl unfolding here_def by arith
  have tk: "take 32 (drop (32 * b) xs) = take here (drop (32 * b) data)"
  proof -
    have "take 32 (drop (32 * b) xs) = take 32 (take (min L 96 - 32 * b) (drop (32 * b) data))"
      by (simp add: xs_def drop_take)
    also have "\<dots> = take (min 32 (min L 96 - 32 * b)) (drop (32 * b) data)"
      by (simp add: min.commute)
    also have "min 32 (min L 96 - 32 * b) = here"
      using b3 by (auto simp: here_def min_def)
    finally show ?thesis .
  qed
  have lh: "length (take here (drop (32 * b) data)) = here"
    using assms(4) bl by (auto simp: here_def min_def)
  have mc: "memcpy (replicate 32 0) (drop (nat (32 * int b)) data) (nat (int here)) = Some (B b)"
  proof -
    have n: "nat (32 * int b) = 32 * b"
      by (simp add: nat_mult_distrib)
    have "here \<le> length (drop (32 * b) data)"
      using lh by (metis length_take min.cobounded1)
    moreover have "here \<le> 32"
      by (simp add: here_def)
    ultimately show ?thesis
      unfolding memcpy_def n B_def tk lh by simp
  qed
  have upt: "[b..<nb] = b # [Suc b..<nb]"
    using b by (simp add: upt_conv_Cons)
  have ih: "se_encrypted_write_loop env data_slot write_kn write_key data (int (Suc b))
        (int L - 32 * int (Suc b)) st' =
      write_blocks env data_slot write_kn write_key (int (Suc b)) (map B [Suc b..<nb]) st'" for st'
    using Suc.hyps(2) b by (intro Suc.hyps(1)) simp_all
  have step: "se_encrypted_write_loop env data_slot write_kn write_key data (int b)
        (int L - 32 * int b) st =
      (case se_encrypted_write32 env data_slot (int b) write_kn write_key (B b) st of
         None \<Rightarrow> None
       | Some (rv, st') \<Rightarrow>
           if rv < 0 then Some (- 1, st')
           else se_encrypted_write_loop env data_slot write_kn write_key data (int (Suc b))
                  (int L - 32 * int (Suc b)) st')"
  proof -
    have c: "int b < 3" "int L - 32 * int b > 0"
      using b3 bl by simp_all
    have e1: "int b + 1 = int (Suc b)"
      by simp
    have e2: "int L - 32 * int b - 32 = int L - 32 * int (Suc b)"
      by simp
    show ?thesis
      by (subst se_encrypted_write_loop.simps)
        (simp only: c if_True simp_thms Let_def h1 mc option.case e1 e2)
  qed
  have e1: "int b + 1 = int (Suc b)"
    by simp
  show ?case
    unfolding step upt list.map write_blocks.simps e1 ih ..
qed

lemma se_encrypted_write_blocks:
  assumes "0 \<le> len" and "nat len \<le> length data"
  shows "se_encrypted_write env data_slot write_kn write_key data len st =
     write_blocks env data_slot write_kn write_key 0 (padded_blocks (take (min (nat len) 96) data)) st"
proof -
  have l: "length (take (min (nat len) 96) data) = min (nat len) 96"
    using assms(2) by simp
  show ?thesis
    using write_loop_blocks [of "nat len" data 0 env data_slot write_kn write_key st] assms
    unfolding se_encrypted_write_def padded_blocks_def l by simp
qed

lemma write_blocks_ok:
  assumes "length r = 32" and "\<And>m. length (sha256 env m) = 32"
  shows "uart_rx st = concat (replicate (length bs) (ok_trains r)) @ rest \<Longrightarrow>
     \<exists>st'. write_blocks env data_slot write_kn write_key blk bs st = Some (0, st')
       \<and> uart_rx st' = rest"
proof (induction bs arbitrary: st blk)
  case Nil
  then show ?case by simp
next
  case (Cons b bs)
  have rx: "uart_rx st = serialize (frame r) # serialize (frame [0]) # serialize (frame r)
      # serialize (frame [0]) # serialize (frame [0])
      # (concat (replicate (length bs) (ok_trains r)) @ rest)"
    using Cons.prems by (simp add: ok_trains_def)
  obtain st1 where w: "se_encrypted_write32 env data_slot blk write_kn write_key b st = Some (0, st1)"
    and s: "uart_rx st1 = concat (replicate (length bs) (ok_trains r)) @ rest"
    using se_encrypted_write32_ok [OF rx assms(1) assms(1) assms(2), of data_slot blk write_kn write_key b]
    by blast
  from Cons.IH [OF s, of "blk + 1"] obtain st' where
    "write_blocks env data_slot write_kn write_key (blk + 1) bs st1 = Some (0, st')"
    "uart_rx st' = rest"
    by blast
  then show ?case
    using w by simp
qed

lemma length_padded_blocks: "length (padded_blocks xs) = (length xs + 31) div 32"
  by (simp add: padded_blocks_def)

lemma padded_blocks_ex40:
  "padded_blocks (take 40 (replicate 100 (0xAA :: u8))) =
     [replicate 32 0xAA, replicate 8 0xAA @ replicate 24 0]"
  by (simp add: padded_blocks_def upt_rec)

lemma padded_blocks_ex96:
  "padded_blocks (take 96 (replicate 100 (0xAA :: u8))) =
     [replicate 32 0xAA, replicate 32 0xAA, replicate 32 0xAA]"
  by (simp add: padded_blocks_def upt_rec)





lemma attempt_terminal:
  assumes len: "length tmp = unat len + 3"
    and op: "current_opcode st \<noteq> OP_Info"
    and n4: "32 \<le> length (rx_head st)"
    and ne: "uint (decode_train (unat len + 3) (rx_head st) ! 0) \<noteq> uint len + 3"
    and b4: "decode_train (unat len + 3) (rx_head st) ! 0 = 4"
  shows "\<exists>tmp' st'. se_read_attempt data len tmp st = Some (Return (- 1), data, tmp', st')
      \<and> uart_rx st' = tl (uart_rx st) \<and> current_opcode st' = current_opcode st
      \<and> ln_retry st' = ln_retry st \<and> retry_out st' = retry_out st
      \<and> len_error_two st' = len_error_two st + 1
      \<and> wdgtimeout st' = wdgtimeout st
           + (if decode_train (unat len + 3) (rx_head st) ! 1 = 0xEE then 1 else 0)
      \<and> rng_pos st' = rng_pos st"
proof -
  define n where "n = length (rx_head st) div 8"
  define bs where "bs = decode_train (unat len + 3) (rx_head st)"
  define tmp' where "tmp' = bs @ drop (min (unat len + 3) n) tmp"
  define st1 where "st1 = consume (emit (pulses_of IOFLAG_TX) st)"
  have rr: "se_read_response tmp (uint len + 3) st = (int n, tmp', st1)"
    by (simp add: se_read_response_tmp [OF len] n_def bs_def tmp'_def st1_def)
  have n4': "4 \<le> n"
    using n4 unfolding n_def by arith
  have lbs: "length bs = min (unat len + 3) n"
    by (simp add: bs_def n_def)
  have h0: "tmp' ! 0 = bs ! 0" and h1: "tmp' ! 1 = bs ! 1"
    using lbs n4' by (simp_all add: tmp'_def nth_append)
  have ne': "uint (bs ! 0) \<noteq> uint len + 3" and b4': "bs ! 0 = 4"
    using ne b4 unfolding bs_def by simp_all
  show ?thesis
    unfolding se_read_attempt_def rr bs_def [symmetric] using op n4' h0 h1 ne' b4'
    by (auto simp: st1_def Let_def)
qed

lemma loop_prefix:
  assumes "length tmp = unat len + 3"
    and "\<forall>t \<in> set (take k (uart_rx st)). retryable (current_opcode st) len t"
    and "int k \<le> retry + 1"
  shows "\<exists>tmp' st'. se_read_loop retry data len tmp st = se_read_loop (retry - int k) data len tmp' st'
      \<and> length tmp' = unat len + 3
      \<and> uart_rx st' = drop k (uart_rx st) \<and> ln_retry st' = ln_retry st + of_nat k
      \<and> retry_out st' = retry_out st \<and> current_opcode st' = current_opcode st
      \<and> rng_pos st' = rng_pos st \<and> len_error_two st' = len_error_two st
      \<and> wdgtimeout st' = wdgtimeout st"
  using assms
proof (induction k arbitrary: tmp st retry)
  case 0
  show ?case
    using "0.prems"(1) by (intro exI [of _ tmp] exI [of _ st]) simp
next
  case (Suc k)
  have r: "retryable (current_opcode st) len (rx_head st)"
    using Suc.prems(2) by (rule rx_head_retryable)
  obtain tmp1 st1 where a: "se_read_attempt data len tmp st = Some (TryAgain, data, tmp1, st1)"
    and l: "length tmp1 = unat len + 3"
    and s: "uart_rx st1 = tl (uart_rx st)" "current_opcode st1 = current_opcode st"
      "ln_retry st1 = ln_retry st" "retry_out st1 = retry_out st"
      "len_error_two st1 = len_error_two st" "wdgtimeout st1 = wdgtimeout st"
      "rng_pos st1 = rng_pos st"
    using attempt_retry [OF Suc.prems(1) r, of data] by blast
  let ?st2 = "st1\<lparr>ln_retry := ln_retry st1 + 1\<rparr>"
  have sub: "set (take k (tl (uart_rx st))) \<subseteq> set (take (Suc k) (uart_rx st))"
    by (cases "uart_rx st") auto
  have p1: "\<forall>t \<in> set (take k (uart_rx ?st2)). retryable (current_opcode ?st2) len t"
    using Suc.prems(2) sub s by auto
  have p2: "int k \<le> (retry - 1) + 1"
    using Suc.prems(3) by simp
  from Suc.IH [OF l p1 p2] obtain tmp' st' where
    b: "se_read_loop (retry - 1) data len tmp1 ?st2 =
          se_read_loop (retry - 1 - int k) data len tmp' st'"
    and t: "length tmp' = unat len + 3"
      "uart_rx st' = drop k (uart_rx ?st2)" "ln_retry st' = ln_retry ?st2 + of_nat k"
      "retry_out st' = retry_out ?st2" "current_opcode st' = current_opcode ?st2"
      "rng_pos st' = rng_pos ?st2" "len_error_two st' = len_error_two ?st2"
      "wdgtimeout st' = wdgtimeout ?st2"
    by blast
  have "0 \<le> retry"
    using Suc.prems(3) by simp
  then have "se_read_loop retry data len tmp st = se_read_loop (retry - 1) data len tmp1 ?st2"
    by (subst se_read_loop.simps) (simp add: a)
  also note b
  also have "retry - 1 - int k = retry - int (Suc k)"
    by simp
  finally have e: "se_read_loop retry data len tmp st =
      se_read_loop (retry - int (Suc k)) data len tmp' st'" .
  show ?case
    using e s t by (intro exI [of _ tmp'] exI [of _ st']) (simp add: drop_Suc)
qed

lemma rx_head_nth:
  assumes "k < length (uart_rx st)" and "uart_rx st' = drop k (uart_rx st)"
  shows "rx_head st' = uart_rx st ! k"
proof -
  have "drop k (uart_rx st) = uart_rx st ! k # drop (Suc k) (uart_rx st)"
    using assms(1) by (simp add: Cons_nth_drop_Suc)
  then show ?thesis
    using assms(2) by (simp add: rx_head_def)
qed

section \<open>The claims\<close>

text \<open>
  Claim C5. For every byte sequence and every split point, one run of
  \<^verbatim>\<open>se_crc16_chain\<close> over the whole sequence from a zero register gives the same two CRC
  bytes as a run over the first fragment followed by a run over the second fragment that
  starts from the register left by the first. The length parameter is 8 bits wide, so the
  sequence has at most 255 bytes.
\<close>

theorem crc16_chain_split:
  "length xs + length ys \<le> 255 \<Longrightarrow>
   se_crc16_chain (of_nat (length (xs @ ys))) (xs @ ys) (0, 0) =
     se_crc16_chain (of_nat (length ys)) ys (se_crc16_chain (of_nat (length xs)) xs (0, 0))"
  using se_crc16_chain_append [of xs ys "(0, 0)"] by (simp del: of_nat_add)

theorem crc16_chain_split_witness:
  "length [1, 2 :: u8] + length [3 :: u8] \<le> 255 \<and>
   se_crc16_chain 3 [1, 2, 3] (0, 0) = se_crc16_chain 1 [3] (se_crc16_chain 2 [1, 2] (0, 0))"
  using crc16_chain_split [of "[1, 2]" "[3]"] by simp

text \<open>
  Claim C6. \<^verbatim>\<open>_send_bits\<close> emits for a byte \<open>b\<close> eight pulses, bit 0 first, 0x7F for a
  one and 0x7D for a zero; \<^verbatim>\<open>deserialize\<close> applied to these eight pulses gives \<open>b\<close> back;
  and for any eight pulses, bit \<open>i\<close> of the byte that \<^verbatim>\<open>deserialize\<close> produces is set
  exactly when pulse \<open>i\<close> has the raw value 0x7E or 0x7F.
\<close>

theorem bit_codec_roundtrip:
  "uart_tx (send_bits b st) = rev (map (\<lambda>i. if bit b i then 0x7F else 0x7D) [0..<8]) @ uart_tx st
   \<and> deserialize (rev (take 8 (uart_tx (send_bits b st)))) 8 [x] 1 = [b]
   \<and> (length ps = 8 \<longrightarrow>
        length (deserialize ps 8 [x] 1) = 1 \<and>
        (\<forall>i < 8. bit (hd (deserialize ps 8 [x] 1)) i = (ps ! i = 0x7E \<or> ps ! i = 0x7F)))"
proof (intro conjI impI allI)
  show tx: "uart_tx (send_bits b st) = rev (map (\<lambda>i. if bit b i then 0x7F else 0x7D) [0..<8]) @ uart_tx st"
    by (simp add: send_bits_emit pulses_of_def BIT0_def BIT1_def)
  have "rev (take 8 (uart_tx (send_bits b st))) = pulses_of b @ []"
    by (simp add: send_bits_emit)
  then show "deserialize (rev (take 8 (uart_tx (send_bits b st)))) 8 [x] 1 = [b]"
    by (simp only: deserialize_one decode_pulses_of)
  show "length (deserialize ps 8 [x] 1) = 1"
    by (simp add: deserialize_one)
  show "bit (hd (deserialize ps 8 [x] 1)) i = (ps ! i = 0x7E \<or> ps ! i = 0x7F)" if "i < 8" for i
    using that by (simp add: deserialize_one decode_bit pulse_is_one_def)
qed

theorem bit_codec_roundtrip_witness:
  "uart_tx (send_bits 0x16 (ex_state [])) = [0x7D, 0x7D, 0x7D, 0x7F, 0x7D, 0x7F, 0x7F, 0x7D]
   \<and> deserialize [0x7D, 0x7F, 0x7F, 0x7D, 0x7F, 0x7D, 0x7D, 0x7D] 8 [0] 1 = [0x16]
   \<and> length [0x7F, 0x7E, 0x00, 0x7D, 0xFF, 0x7F, 0x7F, 0x01 :: u8] = 8
   \<and> length (deserialize [0x7F, 0x7E, 0x00, 0x7D, 0xFF, 0x7F, 0x7F, 0x01] 8 [0] 1) = 1
   \<and> bit (hd (deserialize [0x7F, 0x7E, 0x00, 0x7D, 0xFF, 0x7F, 0x7F, 0x01] 8 [0] 1)) 0
   \<and> bit (hd (deserialize [0x7F, 0x7E, 0x00, 0x7D, 0xFF, 0x7F, 0x7F, 0x01] 8 [0] 1)) 1
   \<and> \<not> bit (hd (deserialize [0x7F, 0x7E, 0x00, 0x7D, 0xFF, 0x7F, 0x7F, 0x01] 8 [0] 1)) 2
   \<and> \<not> bit (hd (deserialize [0x7F, 0x7E, 0x00, 0x7D, 0xFF, 0x7F, 0x7F, 0x01] 8 [0] 1)) 3
   \<and> \<not> bit (hd (deserialize [0x7F, 0x7E, 0x00, 0x7D, 0xFF, 0x7F, 0x7F, 0x01] 8 [0] 1)) 4
   \<and> bit (hd (deserialize [0x7F, 0x7E, 0x00, 0x7D, 0xFF, 0x7F, 0x7F, 0x01] 8 [0] 1)) 5
   \<and> bit (hd (deserialize [0x7F, 0x7E, 0x00, 0x7D, 0xFF, 0x7F, 0x7F, 0x01] 8 [0] 1)) 6
   \<and> \<not> bit (hd (deserialize [0x7F, 0x7E, 0x00, 0x7D, 0xFF, 0x7F, 0x7F, 0x01] 8 [0] 1)) 7"
proof -
  note c6 = bit_codec_roundtrip [of "0x16" "ex_state []" 0
      "[0x7F, 0x7E, 0x00, 0x7D, 0xFF, 0x7F, 0x7F, 0x01]"]
  have e: "rev (map (\<lambda>i. if bit (0x16 :: u8) i then 0x7F else 0x7D) [0..<8])
      = [0x7D, 0x7D, 0x7D, 0x7F, 0x7D, 0x7F, 0x7F, 0x7D :: u8]"
    by code_simp
  have t: "uart_tx (ex_state []) = []"
    by (simp add: ex_state_def)
  have a: "uart_tx (send_bits 0x16 (ex_state [])) = [0x7D, 0x7D, 0x7D, 0x7F, 0x7D, 0x7F, 0x7F, 0x7D]"
    using c6 unfolding e t by simp
  have "deserialize (rev (take 8 (uart_tx (send_bits 0x16 (ex_state []))))) 8 [0] 1 = [0x16]"
    using c6 by (rule conjunct2 [THEN conjunct1])
  then have b: "deserialize [0x7D, 0x7F, 0x7F, 0x7D, 0x7F, 0x7D, 0x7D, 0x7D] 8 [0] 1 = [0x16]"
    unfolding a by simp
  show ?thesis
    using a b c6 by simp
qed

text \<open>
  Claim C7. In every round of \<^verbatim>\<open>se_read\<close> (any value \<open>retry \<ge> 0\<close> of the loop counter, any
  content of \<^verbatim>\<open>tmp\<close> left by earlier rounds), while the opcode in flight is not Info, a
  response of at least 4 bytes whose length byte differs from \<open>len + 3\<close> ends the call at
  once with -1 when that byte is 4: no further train is read, the retry counter stays as
  it is, and the watchdog counter goes up by one exactly when the second byte is 0xEE.
  When the length byte is neither \<open>len + 3\<close> nor 4 the response is not accepted: the loop
  goes on with \<open>retry - 1\<close>. \<^verbatim>\<open>se_read\<close> is this loop started at \<open>retry = 100\<close>. So, when
  the first \<open>k \<le> 100\<close> trains are ones that the code retries and the next one has such a
  length byte, \<^verbatim>\<open>se_read\<close> returns -1 in round \<open>k + 1\<close> for the length byte 4, and goes on
  with the rounds that remain otherwise.
\<close>

theorem se_read_length_mismatch:
  "(se_read_response tmp0 (uint len + 3) st = (actual, tmp, st1)
     \<and> current_opcode st \<noteq> OP_Info \<and> 4 \<le> actual \<and> uint (tmp ! 0) \<noteq> uint len + 3
     \<and> 0 \<le> retry \<longrightarrow>
      uart_rx st1 = tl (uart_rx st) \<and> ln_retry st1 = ln_retry st \<and> retry_out st1 = retry_out st
      \<and> (tmp ! 0 = 4 \<longrightarrow>
           se_read_loop retry data len tmp0 st =
             Some (- 1, data,
               st1\<lparr>len_error := len_error st1 + 1, len_error_two := len_error_two st1 + 1,
                   wdgtimeout := wdgtimeout st1 + (if tmp ! 1 = 0xEE then 1 else 0)\<rparr>))
      \<and> (tmp ! 0 \<noteq> 4 \<longrightarrow>
           se_read_loop retry data len tmp0 st =
             se_read_loop (retry - 1) data len tmp
               (st1\<lparr>len_error := len_error st1 + 1, ln_retry := ln_retry st1 + 1\<rparr>)))
   \<and> se_read data len st = se_read_loop 100 data len (replicate (1 + unat len + 2) 0) st
   \<and> (k \<le> 100 \<and> k < length (uart_rx st)
       \<and> (\<forall>t \<in> set (take k (uart_rx st)). retryable (current_opcode st) len t)
       \<and> current_opcode st \<noteq> OP_Info \<and> 32 \<le> length (uart_rx st ! k)
       \<and> uint (decode_train (unat len + 3) (uart_rx st ! k) ! 0) \<noteq> uint len + 3 \<longrightarrow>
      (decode_train (unat len + 3) (uart_rx st ! k) ! 0 = 4 \<longrightarrow>
         (\<exists>st'. se_read data len st = Some (- 1, data, st')
            \<and> uart_rx st' = drop (Suc k) (uart_rx st) \<and> ln_retry st' = ln_retry st + of_nat k
            \<and> retry_out st' = retry_out st \<and> len_error_two st' = len_error_two st + 1
            \<and> wdgtimeout st' = wdgtimeout st
                 + (if decode_train (unat len + 3) (uart_rx st ! k) ! 1 = 0xEE then 1 else 0)))
      \<and> (decode_train (unat len + 3) (uart_rx st ! k) ! 0 \<noteq> 4 \<longrightarrow>
         (\<exists>tmp' st'. se_read data len st = se_read_loop (99 - int k) data len tmp' st'
            \<and> length tmp' = unat len + 3
            \<and> uart_rx st' = drop (Suc k) (uart_rx st) \<and> ln_retry st' = ln_retry st + of_nat k + 1
            \<and> retry_out st' = retry_out st \<and> len_error_two st' = len_error_two st
            \<and> wdgtimeout st' = wdgtimeout st \<and> current_opcode st' = current_opcode st)))"
proof (intro conjI)
  show "se_read_response tmp0 (uint len + 3) st = (actual, tmp, st1)
     \<and> current_opcode st \<noteq> OP_Info \<and> 4 \<le> actual \<and> uint (tmp ! 0) \<noteq> uint len + 3
     \<and> 0 \<le> retry \<longrightarrow>
      uart_rx st1 = tl (uart_rx st) \<and> ln_retry st1 = ln_retry st \<and> retry_out st1 = retry_out st
      \<and> (tmp ! 0 = 4 \<longrightarrow>
           se_read_loop retry data len tmp0 st =
             Some (- 1, data,
               st1\<lparr>len_error := len_error st1 + 1, len_error_two := len_error_two st1 + 1,
                   wdgtimeout := wdgtimeout st1 + (if tmp ! 1 = 0xEE then 1 else 0)\<rparr>))
      \<and> (tmp ! 0 \<noteq> 4 \<longrightarrow>
           se_read_loop retry data len tmp0 st =
             se_read_loop (retry - 1) data len tmp
               (st1\<lparr>len_error := len_error st1 + 1, ln_retry := ln_retry st1 + 1\<rparr>))"
  proof
    assume h: "se_read_response tmp0 (uint len + 3) st = (actual, tmp, st1)
       \<and> current_opcode st \<noteq> OP_Info \<and> 4 \<le> actual \<and> uint (tmp ! 0) \<noteq> uint len + 3
       \<and> 0 \<le> retry"
    then have rr: "se_read_response tmp0 (uint len + 3) st = (actual, tmp, st1)"
      and op0: "current_opcode st \<noteq> OP_Info" and a4: "4 \<le> actual"
      and ne: "uint (tmp ! 0) \<noteq> uint len + 3" and r0: "0 \<le> retry"
      by simp_all
    have st1: "st1 = consume (emit (pulses_of IOFLAG_TX) st)"
      using se_read_response_state [of tmp0 "uint len + 3" st] rr by simp
    have op: "current_opcode st1 \<noteq> OP_Info"
      using op0 by (simp add: st1)
    have t: "tmp ! 0 = 4 \<Longrightarrow>
        se_read_attempt data len tmp0 st =
          Some (Return (- 1), data, tmp,
            st1\<lparr>len_error := len_error st1 + 1, len_error_two := len_error_two st1 + 1,
                wdgtimeout := wdgtimeout st1 + (if tmp ! 1 = 0xEE then 1 else 0)\<rparr>)"
      unfolding se_read_attempt_def rr prod.case Let_def
      using a4 ne op by simp
    have r: "tmp ! 0 \<noteq> 4 \<Longrightarrow>
        se_read_attempt data len tmp0 st =
          Some (TryAgain, data, tmp, st1\<lparr>len_error := len_error st1 + 1\<rparr>)"
      unfolding se_read_attempt_def rr prod.case Let_def
      using a4 ne op by simp
    have e: "se_read_loop retry data len tmp0 st = (case se_read_attempt data len tmp0 st of
                None \<Rightarrow> None
              | Some (Return rc, data', tmp', st') \<Rightarrow> Some (rc, data', st')
              | Some (TryAgain, data', tmp', st') \<Rightarrow>
                  se_read_loop (retry - 1) data' len tmp' (st'\<lparr>ln_retry := ln_retry st' + 1\<rparr>))"
      using r0 by (subst se_read_loop.simps) simp
    have a: "tmp ! 0 = 4 \<Longrightarrow> se_read_loop retry data len tmp0 st =
              Some (- 1, data,
                st1\<lparr>len_error := len_error st1 + 1, len_error_two := len_error_two st1 + 1,
                    wdgtimeout := wdgtimeout st1 + (if tmp ! 1 = 0xEE then 1 else 0)\<rparr>)"
      unfolding e by (simp add: t)
    have b: "tmp ! 0 \<noteq> 4 \<Longrightarrow> se_read_loop retry data len tmp0 st =
              se_read_loop (retry - 1) data len tmp
                (st1\<lparr>len_error := len_error st1 + 1, ln_retry := ln_retry st1 + 1\<rparr>)"
      unfolding e by (simp add: r)
    show "uart_rx st1 = tl (uart_rx st) \<and> ln_retry st1 = ln_retry st \<and> retry_out st1 = retry_out st
      \<and> (tmp ! 0 = 4 \<longrightarrow>
           se_read_loop retry data len tmp0 st =
             Some (- 1, data,
               st1\<lparr>len_error := len_error st1 + 1, len_error_two := len_error_two st1 + 1,
                   wdgtimeout := wdgtimeout st1 + (if tmp ! 1 = 0xEE then 1 else 0)\<rparr>))
      \<and> (tmp ! 0 \<noteq> 4 \<longrightarrow>
           se_read_loop retry data len tmp0 st =
             se_read_loop (retry - 1) data len tmp
               (st1\<lparr>len_error := len_error st1 + 1, ln_retry := ln_retry st1 + 1\<rparr>))"
      using a b by (simp add: st1)
  qed
next
  show "se_read data len st = se_read_loop 100 data len (replicate (1 + unat len + 2) 0) st"
    by (simp only: se_read_def)
next
  define bs where "bs = decode_train (unat len + 3) (uart_rx st ! k)"
  define tmp0 :: "u8 list" where "tmp0 = replicate (1 + unat len + 2) 0"
  have l0: "length tmp0 = unat len + 3"
    by (simp add: tmp0_def)
  have rd: "se_read data len st = se_read_loop 100 data len tmp0 st"
    by (simp only: se_read_def tmp0_def)
  show "k \<le> 100 \<and> k < length (uart_rx st)
       \<and> (\<forall>t \<in> set (take k (uart_rx st)). retryable (current_opcode st) len t)
       \<and> current_opcode st \<noteq> OP_Info \<and> 32 \<le> length (uart_rx st ! k)
       \<and> uint (decode_train (unat len + 3) (uart_rx st ! k) ! 0) \<noteq> uint len + 3 \<longrightarrow>
      (decode_train (unat len + 3) (uart_rx st ! k) ! 0 = 4 \<longrightarrow>
         (\<exists>st'. se_read data len st = Some (- 1, data, st')
            \<and> uart_rx st' = drop (Suc k) (uart_rx st) \<and> ln_retry st' = ln_retry st + of_nat k
            \<and> retry_out st' = retry_out st \<and> len_error_two st' = len_error_two st + 1
            \<and> wdgtimeout st' = wdgtimeout st
                 + (if decode_train (unat len + 3) (uart_rx st ! k) ! 1 = 0xEE then 1 else 0)))
      \<and> (decode_train (unat len + 3) (uart_rx st ! k) ! 0 \<noteq> 4 \<longrightarrow>
         (\<exists>tmp' st'. se_read data len st = se_read_loop (99 - int k) data len tmp' st'
            \<and> length tmp' = unat len + 3
            \<and> uart_rx st' = drop (Suc k) (uart_rx st) \<and> ln_retry st' = ln_retry st + of_nat k + 1
            \<and> retry_out st' = retry_out st \<and> len_error_two st' = len_error_two st
            \<and> wdgtimeout st' = wdgtimeout st \<and> current_opcode st' = current_opcode st))"
    unfolding bs_def [symmetric]
  proof (intro impI conjI)
    assume h: "k \<le> 100 \<and> k < length (uart_rx st)
       \<and> (\<forall>t \<in> set (take k (uart_rx st)). retryable (current_opcode st) len t)
       \<and> current_opcode st \<noteq> OP_Info \<and> 32 \<le> length (uart_rx st ! k)
       \<and> uint (bs ! 0) \<noteq> uint len + 3"
    assume b4: "bs ! 0 = 4"
    from h have k: "k \<le> 100" and kl: "k < length (uart_rx st)"
      and pre: "\<forall>t \<in> set (take k (uart_rx st)). retryable (current_opcode st) len t"
      and op: "current_opcode st \<noteq> OP_Info" and n4: "32 \<le> length (uart_rx st ! k)"
      and ne: "uint (bs ! 0) \<noteq> uint len + 3"
      by simp_all
    have kr: "int k \<le> 100 + 1"
      using k by simp
    obtain tmp1 sk where
      e: "se_read_loop 100 data len tmp0 st = se_read_loop (100 - int k) data len tmp1 sk"
      and t: "length tmp1 = unat len + 3"
        "uart_rx sk = drop k (uart_rx st)" "ln_retry sk = ln_retry st + of_nat k"
        "retry_out sk = retry_out st" "current_opcode sk = current_opcode st"
        "len_error_two sk = len_error_two st" "wdgtimeout sk = wdgtimeout st"
      using loop_prefix [OF l0 pre kr, of data] by blast
    have hd: "rx_head sk = uart_rx st ! k"
      using kl t(2) by (rule rx_head_nth)
    obtain tmp2 st' where
      a: "se_read_attempt data len tmp1 sk = Some (Return (- 1), data, tmp2, st')"
      and u: "uart_rx st' = tl (uart_rx sk)" "ln_retry st' = ln_retry sk"
        "retry_out st' = retry_out sk" "len_error_two st' = len_error_two sk + 1"
        "wdgtimeout st' = wdgtimeout sk + (if bs ! 1 = 0xEE then 1 else 0)"
      using attempt_terminal [of tmp1 len sk data] t(1) op n4 ne b4
      unfolding hd t(5) bs_def by blast
    have "0 \<le> 100 - int k"
      using k by simp
    then have "se_read_loop (100 - int k) data len tmp1 sk = Some (- 1, data, st')"
      by (subst se_read_loop.simps) (simp add: a)
    then have "se_read data len st = Some (- 1, data, st')"
      unfolding rd e .
    moreover have "uart_rx st' = drop (Suc k) (uart_rx st)"
      unfolding u(1) t(2) by (simp add: drop_Suc drop_tl)
    ultimately show "\<exists>st'. se_read data len st = Some (- 1, data, st')
            \<and> uart_rx st' = drop (Suc k) (uart_rx st) \<and> ln_retry st' = ln_retry st + of_nat k
            \<and> retry_out st' = retry_out st \<and> len_error_two st' = len_error_two st + 1
            \<and> wdgtimeout st' = wdgtimeout st + (if bs ! 1 = 0xEE then 1 else 0)"
      using u t by (intro exI [of _ st']) simp
  next
    assume h: "k \<le> 100 \<and> k < length (uart_rx st)
       \<and> (\<forall>t \<in> set (take k (uart_rx st)). retryable (current_opcode st) len t)
       \<and> current_opcode st \<noteq> OP_Info \<and> 32 \<le> length (uart_rx st ! k)
       \<and> uint (bs ! 0) \<noteq> uint len + 3"
    assume b4: "bs ! 0 \<noteq> 4"
    from h have k: "k \<le> 100" and kl: "k < length (uart_rx st)"
      and pre: "\<forall>t \<in> set (take k (uart_rx st)). retryable (current_opcode st) len t"
      and op: "current_opcode st \<noteq> OP_Info" and n4: "32 \<le> length (uart_rx st ! k)"
      and ne: "uint (bs ! 0) \<noteq> uint len + 3"
      by simp_all
    have "retryable (current_opcode st) len (uart_rx st ! k)"
      using op ne b4 unfolding retryable_def Let_def bs_def by simp
    then have pre': "\<forall>t \<in> set (take (Suc k) (uart_rx st)). retryable (current_opcode st) len t"
      using pre kl by (simp add: take_Suc_conv_app_nth)
    have kr: "int (Suc k) \<le> 100 + 1"
      using k by simp
    obtain tmp' st' where
      e: "se_read_loop 100 data len tmp0 st = se_read_loop (100 - int (Suc k)) data len tmp' st'"
      and t: "length tmp' = unat len + 3"
        "uart_rx st' = drop (Suc k) (uart_rx st)" "ln_retry st' = ln_retry st + of_nat (Suc k)"
        "retry_out st' = retry_out st" "current_opcode st' = current_opcode st"
        "len_error_two st' = len_error_two st" "wdgtimeout st' = wdgtimeout st"
      using loop_prefix [OF l0 pre' kr, of data] by blast
    have "100 - int (Suc k) = 99 - int k"
      by simp
    then have "se_read data len st = se_read_loop (99 - int k) data len tmp' st'"
      unfolding rd e by simp
    then show "\<exists>tmp' st'. se_read data len st = se_read_loop (99 - int k) data len tmp' st'
            \<and> length tmp' = unat len + 3
            \<and> uart_rx st' = drop (Suc k) (uart_rx st) \<and> ln_retry st' = ln_retry st + of_nat k + 1
            \<and> retry_out st' = retry_out st \<and> len_error_two st' = len_error_two st
            \<and> wdgtimeout st' = wdgtimeout st \<and> current_opcode st' = current_opcode st"
      using t by (intro exI [of _ tmp'] exI [of _ st']) simp
  qed
qed

theorem se_read_length_mismatch_witness:
  "se_read_loop 57 (replicate 32 0) 32 (replicate 35 0x11)
       (ex_state [serialize [4, 0xEE, 0, 0], serialize [9, 9, 9, 9]]) =
     Some (- 1, replicate 32 0,
       (consume (emit (pulses_of IOFLAG_TX)
          (ex_state [serialize [4, 0xEE, 0, 0], serialize [9, 9, 9, 9]])))
       \<lparr>len_error := 1, len_error_two := 1, wdgtimeout := 1\<rparr>)
   \<and> se_read_loop 57 (replicate 32 0) 32 (replicate 35 0x11)
       (ex_state [serialize [9, 9, 9, 9], serialize [4, 0xEE, 0, 0]]) =
     se_read_loop 56 (replicate 32 0) 32 ([9, 9, 9, 9] @ replicate 31 0x11)
       ((consume (emit (pulses_of IOFLAG_TX)
          (ex_state [serialize [9, 9, 9, 9], serialize [4, 0xEE, 0, 0]])))
        \<lparr>len_error := 1, ln_retry := 1\<rparr>)
   \<and> (\<exists>st'. se_read (replicate 32 0) 32
          (ex_state [serialize [9, 9, 9, 9], [], serialize [4, 0xEE, 0, 0], serialize [9, 9, 9, 9]]) =
          Some (- 1, replicate 32 0, st')
        \<and> uart_rx st' = [serialize [9, 9, 9, 9]] \<and> ln_retry st' = 2 \<and> retry_out st' = 0
        \<and> len_error_two st' = 1 \<and> wdgtimeout st' = 1)
   \<and> (\<exists>tmp' st'. se_read (replicate 32 0) 32
          (ex_state [serialize [9, 9, 9, 9], [], serialize [9, 9, 9, 9], serialize [4, 0xEE, 0, 0]]) =
          se_read_loop 97 (replicate 32 0) 32 tmp' st'
        \<and> length tmp' = 35 \<and> uart_rx st' = [serialize [4, 0xEE, 0, 0]] \<and> ln_retry st' = 3
        \<and> retry_out st' = 0 \<and> len_error_two st' = 0 \<and> wdgtimeout st' = 0
        \<and> current_opcode st' = OP_Read)"
proof -
  let ?g = "serialize [9, 9, 9, 9]"
  let ?e = "serialize [4, 0xEE, 0, 0]"
  let ?st = "ex_state [?e, ?g]"
  let ?st' = "ex_state [?g, ?e]"
  let ?s3 = "ex_state [?g, [], ?e, ?g]"
  let ?s4 = "ex_state [?g, [], ?g, ?e]"
  have l: "length (replicate 35 (0x11 :: u8)) = unat (32 :: u8) + 3"
    by simp
  have rr: "se_read_response (replicate 35 0x11) (uint (32 :: u8) + 3) ?st =
      (4, [4, 0xEE, 0, 0] @ replicate 31 0x11, consume (emit (pulses_of IOFLAG_TX) ?st))"
    by (subst se_read_response_tmp [OF l])
      (simp_all add: rx_head_def ex_state_def decode_train_serialize)
  have rr': "se_read_response (replicate 35 0x11) (uint (32 :: u8) + 3) ?st' =
      (4, [9, 9, 9, 9] @ replicate 31 0x11, consume (emit (pulses_of IOFLAG_TX) ?st'))"
    by (subst se_read_response_tmp [OF l])
      (simp_all add: rx_head_def ex_state_def decode_train_serialize)
  have h: "se_read_response (replicate 35 0x11) (uint (32 :: u8) + 3) ?st =
      (4, [4, 0xEE, 0, 0] @ replicate 31 0x11, consume (emit (pulses_of IOFLAG_TX) ?st))
     \<and> current_opcode ?st \<noteq> OP_Info \<and> 4 \<le> (4 :: int)
     \<and> uint (([4, 0xEE, 0, 0] @ replicate 31 (0x11 :: u8)) ! 0) \<noteq> uint (32 :: u8) + 3
     \<and> 0 \<le> (57 :: int)"
    using rr by (simp add: ex_state_def)
  have h': "se_read_response (replicate 35 0x11) (uint (32 :: u8) + 3) ?st' =
      (4, [9, 9, 9, 9] @ replicate 31 0x11, consume (emit (pulses_of IOFLAG_TX) ?st'))
     \<and> current_opcode ?st' \<noteq> OP_Info \<and> 4 \<le> (4 :: int)
     \<and> uint (([9, 9, 9, 9] @ replicate 31 (0x11 :: u8)) ! 0) \<noteq> uint (32 :: u8) + 3
     \<and> 0 \<le> (57 :: int)"
    using rr' by (simp add: ex_state_def)
  have a: "se_read_loop 57 (replicate 32 0) 32 (replicate 35 0x11) ?st =
     Some (- 1, replicate 32 0,
       (consume (emit (pulses_of IOFLAG_TX) ?st))\<lparr>len_error := 1, len_error_two := 1, wdgtimeout := 1\<rparr>)"
    using se_read_length_mismatch [where ?tmp0.0 = "replicate 35 0x11" and len = 32 and st = ?st and retry = 57
        and data = "replicate 32 0", THEN conjunct1, THEN mp, OF h]
    by (simp add: ex_state_def)
  have b: "se_read_loop 57 (replicate 32 0) 32 (replicate 35 0x11) ?st' =
     se_read_loop 56 (replicate 32 0) 32 ([9, 9, 9, 9] @ replicate 31 0x11)
       ((consume (emit (pulses_of IOFLAG_TX) ?st'))\<lparr>len_error := 1, ln_retry := 1\<rparr>)"
    using se_read_length_mismatch [where ?tmp0.0 = "replicate 35 0x11" and len = 32 and st = ?st' and retry = 57
        and data = "replicate 32 0", THEN conjunct1, THEN mp, OF h']
    by (simp add: ex_state_def)
  have n3: "uart_rx ?s3 ! 2 = ?e" and n4: "uart_rx ?s4 ! 2 = ?g"
    by (simp_all add: ex_state_def)
  have h3: "2 \<le> (100 :: nat) \<and> 2 < length (uart_rx ?s3)
       \<and> (\<forall>t \<in> set (take 2 (uart_rx ?s3)). retryable (current_opcode ?s3) 32 t)
       \<and> current_opcode ?s3 \<noteq> OP_Info \<and> 32 \<le> length (uart_rx ?s3 ! 2)
       \<and> uint (decode_train (unat (32 :: u8) + 3) (uart_rx ?s3 ! 2) ! 0) \<noteq> uint (32 :: u8) + 3"
    unfolding n3 by (simp add: ex_state_def retryable_garbage decode_train_serialize)
  have h4: "2 \<le> (100 :: nat) \<and> 2 < length (uart_rx ?s4)
       \<and> (\<forall>t \<in> set (take 2 (uart_rx ?s4)). retryable (current_opcode ?s4) 32 t)
       \<and> current_opcode ?s4 \<noteq> OP_Info \<and> 32 \<le> length (uart_rx ?s4 ! 2)
       \<and> uint (decode_train (unat (32 :: u8) + 3) (uart_rx ?s4 ! 2) ! 0) \<noteq> uint (32 :: u8) + 3"
    unfolding n4 by (simp add: ex_state_def retryable_garbage decode_train_serialize)
  have c: "\<exists>st'. se_read (replicate 32 0) 32 ?s3 = Some (- 1, replicate 32 0, st')
        \<and> uart_rx st' = [?g] \<and> ln_retry st' = 2 \<and> retry_out st' = 0
        \<and> len_error_two st' = 1 \<and> wdgtimeout st' = 1"
    using se_read_length_mismatch [where len = 32 and st = ?s3 and k = 2 and data = "replicate 32 0",
        THEN conjunct2, THEN conjunct2, THEN mp, OF h3, THEN conjunct1]
    unfolding n3 by (simp add: ex_state_def decode_train_serialize)
  have d: "\<exists>tmp' st'. se_read (replicate 32 0) 32 ?s4 = se_read_loop 97 (replicate 32 0) 32 tmp' st'
        \<and> length tmp' = 35 \<and> uart_rx st' = [?e] \<and> ln_retry st' = 3
        \<and> retry_out st' = 0 \<and> len_error_two st' = 0 \<and> wdgtimeout st' = 0
        \<and> current_opcode st' = OP_Read"
    using se_read_length_mismatch [where len = 32 and st = ?s4 and k = 2 and data = "replicate 32 0",
        THEN conjunct2, THEN conjunct2, THEN mp, OF h4, THEN conjunct2]
    unfolding n4 by (simp add: ex_state_def decode_train_serialize)
  show ?thesis
    using a b c d by (intro conjI)
qed

text \<open>
  Claim C8. \<^verbatim>\<open>se_read\<close> makes at most 101 rounds. When each of the next 101 trains is one
  that the code retries (fewer than 4 bytes; or, for an opcode other than Info, a length
  byte that is neither \<open>len + 3\<close> nor 4, or a bad CRC), it returns -1 after exactly 101
  rounds: 101 trains are consumed, the retry counter has gone up by 101 and the counter of
  exhausted reads by one. When the first \<open>k \<le> 100\<close> trains are of that kind and the next
  one is a valid frame, it returns 0 with the payload after \<open>k + 1\<close> rounds and reads no
  further train.
\<close>

theorem se_read_retry_budget:
  "((\<forall>t \<in> set (take 101 (uart_rx st)). retryable (current_opcode st) len t) \<longrightarrow>
      (\<exists>st'. se_read data len st = Some (- 1, data, st')
         \<and> uart_rx st' = drop 101 (uart_rx st) \<and> ln_retry st' = ln_retry st + 101
         \<and> retry_out st' = retry_out st + 1))
   \<and> (k \<le> 100 \<and> k < length (uart_rx st)
       \<and> (\<forall>t \<in> set (take k (uart_rx st)). retryable (current_opcode st) len t)
       \<and> accepted (current_opcode st) len (uart_rx st ! k) \<and> length data = unat len \<longrightarrow>
      (\<exists>st'. se_read data len st =
          Some (0, take (length (uart_rx st ! k) div 8 - 3)
                     (tl (decode_train (unat len + 3) (uart_rx st ! k)))
                   @ drop (length (uart_rx st ! k) div 8 - 3) data, st')
         \<and> uart_rx st' = drop (Suc k) (uart_rx st) \<and> ln_retry st' = ln_retry st + of_nat k
         \<and> retry_out st' = retry_out st))"
proof (intro conjI impI)
  assume "\<forall>t \<in> set (take 101 (uart_rx st)). retryable (current_opcode st) len t"
  from loop_exhaust [of "replicate (1 + unat len + 2) 0" len 101 st data, OF _ this]
  show "\<exists>st'. se_read data len st = Some (- 1, data, st')
         \<and> uart_rx st' = drop 101 (uart_rx st) \<and> ln_retry st' = ln_retry st + 101
         \<and> retry_out st' = retry_out st + 1"
    unfolding se_read_def by auto
next
  assume a: "k \<le> 100 \<and> k < length (uart_rx st)
       \<and> (\<forall>t \<in> set (take k (uart_rx st)). retryable (current_opcode st) len t)
       \<and> accepted (current_opcode st) len (uart_rx st ! k) \<and> length data = unat len"
  then have "int k \<le> 100" by simp
  from loop_success [of "replicate (1 + unat len + 2) 0" len data k st 100, OF _ _ _ _ _ this] a
  show "\<exists>st'. se_read data len st =
          Some (0, take (length (uart_rx st ! k) div 8 - 3)
                     (tl (decode_train (unat len + 3) (uart_rx st ! k)))
                   @ drop (length (uart_rx st ! k) div 8 - 3) data, st')
         \<and> uart_rx st' = drop (Suc k) (uart_rx st) \<and> ln_retry st' = ln_retry st + of_nat k
         \<and> retry_out st' = retry_out st"
    unfolding se_read_def by auto
qed

theorem se_read_retry_budget_witness:
  "(\<exists>st'. se_read (replicate 32 0) 32
             (ex_state (replicate 101 (serialize [9, 9, 9, 9]) @ [serialize (frame (replicate 32 7))])) =
             Some (- 1, replicate 32 0, st')
         \<and> uart_rx st' = [serialize (frame (replicate 32 7))] \<and> ln_retry st' = 101
         \<and> retry_out st' = 1)
   \<and> (\<exists>st'. se_read (replicate 32 0) 32
             (ex_state (replicate 100 (serialize [9, 9, 9, 9]) @ [serialize (frame (replicate 32 7)), []])) =
             Some (0, replicate 32 7, st')
         \<and> uart_rx st' = [[]] \<and> ln_retry st' = 100 \<and> retry_out st' = 0)"
proof -
  let ?g = "serialize [9, 9, 9, 9]"
  let ?f = "serialize (frame (replicate 32 7))"
  let ?st1 = "ex_state (replicate 101 ?g @ [?f])"
  let ?st2 = "ex_state (replicate 100 ?g @ [?f, []])"
  note c8a = se_read_retry_budget [of ?st1 32 "replicate 32 0" 0, THEN conjunct1]
  note c8b = se_read_retry_budget [of ?st2 32 "replicate 32 0" 100, THEN conjunct2]
  have h1: "\<forall>t \<in> set (take 101 (uart_rx ?st1)). retryable (current_opcode ?st1) 32 t"
    by (simp add: ex_state_def retryable_garbage)
  have acc: "accepted OP_Read 32 ?f"
    by (rule accepted_frame) simp_all
  have pay: "take (length ?f div 8 - 3) (tl (decode_train (unat (32 :: u8) + 3) ?f))
      @ drop (length ?f div 8 - 3) (replicate 32 0) = replicate 32 7"
    by (rule payload_frame) simp_all
  have nth: "uart_rx ?st2 ! 100 = ?f"
    by (simp add: ex_state_def nth_append)
  have h2: "100 \<le> (100 :: nat) \<and> 100 < length (uart_rx ?st2)
       \<and> (\<forall>t \<in> set (take 100 (uart_rx ?st2)). retryable (current_opcode ?st2) 32 t)
       \<and> accepted (current_opcode ?st2) 32 (uart_rx ?st2 ! 100)
       \<and> length (replicate 32 (0 :: u8)) = unat (32 :: u8)"
    unfolding nth using acc by (simp add: ex_state_def retryable_garbage)
  have a: "\<exists>st'. se_read (replicate 32 0) 32 ?st1 = Some (- 1, replicate 32 0, st')
         \<and> uart_rx st' = [?f] \<and> ln_retry st' = 101 \<and> retry_out st' = 1"
    using c8a [THEN mp, OF h1] by (simp add: ex_state_def)
  have b: "\<exists>st'. se_read (replicate 32 0) 32 ?st2 = Some (0, replicate 32 7, st')
         \<and> uart_rx st' = [[]] \<and> ln_retry st' = 100 \<and> retry_out st' = 0"
    using c8b [THEN mp, OF h2] unfolding nth pay by (simp add: ex_state_def)
  show ?thesis
    using a b by (rule conjI)
qed

text \<open>
  Claim C2. When the read of the Nonce response succeeds with the 32 bytes \<open>randout\<close>
  (the random number that the chip returns) and the host entropy \<open>num_in\<close> has 20 bytes,
  \<^verbatim>\<open>se_pick_nonce\<close> returns 0 and the tempkey SHA256(randout || num_in || {0x16, 0, 0}).
  The tempkey is a function of these two inputs alone.
\<close>

theorem se_pick_nonce_tempkey:
  assumes "se_read (replicate 32 0) 32 (se_write env OP_Nonce 0 0 num_in 20 st) = Some (rc, randout, st2)"
    and "0 \<le> rc" and "length num_in = 20"
  shows "length randout = 32 \<and>
     se_pick_nonce env num_in tempkey st =
       Some (0, sha256 env (randout @ num_in @ [0x16, 0, 0]), se_sleep st2)"
proof -
  have l: "length randout = 32"
    using se_read_length [OF assms(1)] by simp
  show ?thesis
    using se_pick_nonce_result [OF assms(1), of tempkey] assms(2,3) l by simp
qed

theorem se_pick_nonce_tempkey_witness:
  "length (replicate 32 (7 :: u8)) = 32 \<and>
   se_pick_nonce ex_env (replicate 20 1) (replicate 32 0) (ex_state [serialize (frame (replicate 32 7))]) =
     Some (0, sha256 ex_env (replicate 32 7 @ replicate 20 1 @ [0x16, 0, 0]),
           se_sleep (answered (se_write ex_env OP_Nonce 0 0 (replicate 20 1) 20
             (ex_state [serialize (frame (replicate 32 7))]))))"
proof -
  let ?st = "ex_state [serialize (frame (replicate 32 7))]"
  let ?w = "se_write ex_env OP_Nonce 0 0 (replicate 20 1) 20 ?st"
  have w: "?w = written ex_env OP_Nonce 0 0 (replicate 20 1) 20 ?st"
    by (intro se_write_written) simp
  have r: "se_read (replicate 32 0) 32 ?w = Some (0, replicate 32 7, answered ?w)"
    unfolding w by (intro se_read_frame [where rest = "[]"]) simp_all
  show ?thesis
    using se_pick_nonce_tempkey [OF r, of "replicate 32 0"] by simp
qed

text \<open>
  Claim C3. When the nonce exchange has succeeded with \<open>tempkey\<close> and the one-byte
  GenDig response is 0, \<^verbatim>\<open>se_gendig_slot\<close> returns 0 and the digest
  SHA256(slot_contents || {GenDig opcode, 2, slot_num, 0, 0xEE, 0x01, 0x23} || 25 zero
  bytes || tempkey), for 32 bytes of slot contents and a 32-byte tempkey. The byte
  \<open>slot_num\<close> of the message is the low byte of the C integer.
\<close>

theorem se_gendig_slot_digest:
  assumes "rng_buffer env 20 st = (num_in, st1)"
    and "se_pick_nonce env num_in (replicate 32 0) st1 = Some (rc, tempkey, st2)"
    and "0 \<le> rc"
    and "se_read1 (se_write env OP_GenDig 0x2 (word_of_int slot_num) [] 0 st2) = Some (0, st4)"
    and "length slot_contents = 32" and "length tempkey = 32"
  shows "se_gendig_slot env slot_num slot_contents digest st =
     Some (0, sha256 env (slot_contents
               @ [opcode_byte env OP_GenDig, 2, word_of_int slot_num, 0, 0xEE, 0x01, 0x23]
               @ replicate 25 0 @ tempkey),
           se_sleep st4)"
  using se_gendig_slot_result [OF assms(1,2), of slot_num slot_contents digest] assms(3-)
  by simp

theorem se_gendig_slot_digest_witness:
  "se_gendig_slot ex_env 5 (replicate 32 9) (replicate 32 0)
       (ex_state [serialize (frame (replicate 32 7)), serialize (frame [0])]) =
     Some (0, sha256 ex_env (replicate 32 9
               @ [opcode_byte ex_env OP_GenDig, 2, 5, 0, 0xEE, 0x01, 0x23]
               @ replicate 25 0
               @ sha256 ex_env (replicate 32 7 @ map (rng ex_env) [0..<20] @ [0x16, 0, 0])),
           se_sleep (answered (se_write ex_env OP_GenDig 0x2 5 [] 0
             (se_sleep (answered (se_write ex_env OP_Nonce 0 0 (map (rng ex_env) [0..<20]) 20
                (snd (rng_buffer ex_env 20
                   (ex_state [serialize (frame (replicate 32 7)), serialize (frame [0])])))))))))"
proof -
  let ?st = "ex_state [serialize (frame (replicate 32 7)), serialize (frame [0])]"
  let ?num = "map (rng ex_env) [0..<20]"
  let ?st1 = "snd (rng_buffer ex_env 20 ?st)"
  let ?w1 = "se_write ex_env OP_Nonce 0 0 ?num 20 ?st1"
  let ?st2 = "se_sleep (answered ?w1)"
  let ?w2 = "se_write ex_env OP_GenDig 0x2 (word_of_int 5) [] 0 ?st2"
  have w1: "?w1 = written ex_env OP_Nonce 0 0 ?num 20 ?st1"
    by (intro se_write_written) simp
  have w2: "?w2 = written ex_env OP_GenDig 0x2 (word_of_int 5) [] 0 ?st2"
    by (intro se_write_written) simp
  have rb: "rng_buffer ex_env 20 ?st = (?num, ?st1)"
    by (simp add: rng_buffer_def)
  have n: "se_pick_nonce ex_env ?num (replicate 32 0) ?st1 =
      Some (0, sha256 ex_env (replicate 32 7 @ take 20 ?num @ [0x16, 0, 0]), ?st2)"
    unfolding w1
    by (intro se_pick_nonce_ok [where rest = "[serialize (frame [0])]"]) simp_all
  have r: "se_read1 ?w2 = Some (0, answered ?w2)"
    using se_read1_frame [of ?w2 0 "[]"] unfolding w2 by (simp add: w1)
  show ?thesis
    using se_gendig_slot_digest [OF rb n _ r, of "replicate 32 9" "replicate 32 0"]
    by simp
qed

text \<open>
  Claim C1, as amended. \<^verbatim>\<open>se_checkmac\<close> returns -1 exactly when the nonce exchange fails.
  After a nonce exchange that succeeded it returns 0 when \<^verbatim>\<open>se_read1\<close> delivers the byte 0
  for the CheckMac response, and -2 for every other result of \<^verbatim>\<open>se_read1\<close>: a byte other
  than 0 from the chip, and also the value -1 by which \<^verbatim>\<open>se_read1\<close> reports that the
  response could not be read.
\<close>

theorem se_checkmac_codes:
  assumes "rng_buffer env 32 st = (od, st1)" and "rng_buffer env 20 st1 = (numin, st2)"
    and "se_pick_nonce env numin (replicate 32 0) st2 = Some (rc1, tempkey, st3)"
  shows "(rc1 < 0 \<longrightarrow> se_checkmac env keynum secret st = Some (- 1, st3))
     \<and> (0 \<le> rc1 \<and> se_read1 (se_write env OP_CheckMac 0x01 (ucast keynum)
                           (checkmac_req env secret tempkey od) 77 st3) = Some (rc2, st5) \<longrightarrow>
          se_checkmac env keynum secret st = Some (if rc2 = 0 then 0 else - 2, se_sleep st5)
          \<and> (rc2 = - 1 \<or> 0 \<le> rc2 \<and> rc2 \<le> 255))"
  using se_checkmac_result [OF assms, of keynum secret] se_read1_range [of _ rc2 st5]
  by auto

theorem se_checkmac_read_failure_counterexample:
  "se_pick_nonce ex_env (map (rng ex_env) [32..<52]) (replicate 32 0)
       (snd (rng_buffer ex_env 20 (snd (rng_buffer ex_env 32
          (ex_state [serialize (frame (replicate 32 7))]))))) =
     Some (0, sha256 ex_env (replicate 32 7 @ map (rng ex_env) [32..<52] @ [0x16, 0, 0]),
       se_sleep (answered (se_write ex_env OP_Nonce 0 0 (map (rng ex_env) [32..<52]) 20
         (snd (rng_buffer ex_env 20 (snd (rng_buffer ex_env 32
            (ex_state [serialize (frame (replicate 32 7))]))))))))
   \<and> map_option fst
        (se_read1 (se_write ex_env OP_CheckMac 0x01 1
           (checkmac_req ex_env (replicate 32 0x55)
              (sha256 ex_env (replicate 32 7 @ map (rng ex_env) [32..<52] @ [0x16, 0, 0]))
              (map (rng ex_env) [0..<32])) 77
           (se_sleep (answered (se_write ex_env OP_Nonce 0 0 (map (rng ex_env) [32..<52]) 20
              (snd (rng_buffer ex_env 20 (snd (rng_buffer ex_env 32
                 (ex_state [serialize (frame (replicate 32 7))])))))))))) = Some (- 1)
   \<and> map_option fst (se_checkmac ex_env 1 (replicate 32 0x55)
          (ex_state [serialize (frame (replicate 32 7))])) = Some (- 2)"
proof -
  let ?st = "ex_state [serialize (frame (replicate 32 7))]"
  let ?od = "map (rng ex_env) [0..<32]"
  let ?numin = "map (rng ex_env) [32..<52]"
  let ?st1 = "snd (rng_buffer ex_env 32 ?st)"
  let ?st2 = "snd (rng_buffer ex_env 20 ?st1)"
  let ?w1 = "se_write ex_env OP_Nonce 0 0 ?numin 20 ?st2"
  let ?tk = "sha256 ex_env (replicate 32 7 @ ?numin @ [0x16, 0, 0])"
  define st3 where "st3 = se_sleep (answered ?w1)"
  let ?w2 = "se_write ex_env OP_CheckMac 0x01 (ucast (1 :: u8))
      (checkmac_req ex_env (replicate 32 0x55) ?tk ?od) 77 st3"
  have w1: "?w1 = written ex_env OP_Nonce 0 0 ?numin 20 ?st2"
    by (intro se_write_written) simp
  have st3w: "st3 = se_sleep (answered (written ex_env OP_Nonce 0 0 ?numin 20 ?st2))"
    unfolding st3_def w1 ..
  have w2: "?w2 = written ex_env OP_CheckMac 0x01 (ucast (1 :: u8))
      (checkmac_req ex_env (replicate 32 0x55) ?tk ?od) 77 st3"
    by (intro se_write_written) simp
  have rx3: "uart_rx st3 = []"
    unfolding st3w by simp
  have rb1: "rng_buffer ex_env 32 ?st = (?od, ?st1)"
    by (simp add: rng_buffer_def)
  have rb2: "rng_buffer ex_env 20 ?st1 = (?numin, ?st2)"
    by (simp add: rng_buffer_def)
  have n: "se_pick_nonce ex_env ?numin (replicate 32 0) ?st2 = Some (0, ?tk, st3)"
    unfolding st3w
    using se_pick_nonce_ok [of ?st2 "replicate 32 7" "[]" ?numin ex_env "replicate 32 0"]
    by simp
  obtain st5 where r: "se_read1 ?w2 = Some (- 1, st5)"
    unfolding w2 using se_read1_exhaust [of "written ex_env OP_CheckMac 0x01 (ucast (1 :: u8))
      (checkmac_req ex_env (replicate 32 0x55) ?tk ?od) 77 st3"] rx3 by auto
  have c: "se_checkmac ex_env 1 (replicate 32 0x55) ?st = Some (- 2, se_sleep st5)"
    using se_checkmac_result [OF rb1 rb2 n, of 1 "replicate 32 0x55"] r by simp
  show ?thesis
    using n r c unfolding st3_def by simp
qed

theorem se_checkmac_codes_witness:
  "map_option fst (se_checkmac ex_env 1 (replicate 32 0x55) (ex_state [])) = Some (- 1)
   \<and> map_option fst (se_checkmac ex_env 1 (replicate 32 0x55)
          (ex_state [serialize (frame (replicate 32 7)), serialize (frame [0])])) = Some 0
   \<and> map_option fst (se_checkmac ex_env 1 (replicate 32 0x55)
          (ex_state [serialize (frame (replicate 32 7)), serialize (frame [0xD3])])) = Some (- 2)"
proof -
  let ?od = "map (rng ex_env) [0..<32]"
  let ?numin = "map (rng ex_env) [32..<52]"
  let ?tk = "sha256 ex_env (replicate 32 7 @ ?numin @ [0x16, 0, 0])"
  have a: "map_option fst (se_checkmac ex_env 1 (replicate 32 0x55) (ex_state [])) = Some (- 1)"
  proof -
    let ?st = "ex_state []"
    let ?st1 = "snd (rng_buffer ex_env 32 ?st)"
    let ?st2 = "snd (rng_buffer ex_env 20 ?st1)"
    have rb1: "rng_buffer ex_env 32 ?st = (?od, ?st1)"
      by (simp add: rng_buffer_def)
    have rb2: "rng_buffer ex_env 20 ?st1 = (?numin, ?st2)"
      by (simp add: rng_buffer_def)
    obtain st3 where n: "se_pick_nonce ex_env ?numin (replicate 32 0) ?st2 =
        Some (- 1, replicate 32 0, st3)"
      using se_pick_nonce_exhaust [of ?st2 ?numin ex_env "replicate 32 0"] by auto
    show ?thesis
      using se_checkmac_codes [OF rb1 rb2 n, of 1 "replicate 32 0x55"] by simp
  qed
  have b: "map_option fst (se_checkmac ex_env 1 (replicate 32 0x55)
          (ex_state [serialize (frame (replicate 32 7)), serialize (frame [c])])) =
        Some (if uint c = 0 then 0 else - 2)" for c
  proof -
    let ?st = "ex_state [serialize (frame (replicate 32 7)), serialize (frame [c])]"
    let ?st1 = "snd (rng_buffer ex_env 32 ?st)"
    let ?st2 = "snd (rng_buffer ex_env 20 ?st1)"
    let ?w1 = "se_write ex_env OP_Nonce 0 0 ?numin 20 ?st2"
    define st3 where "st3 = se_sleep (answered ?w1)"
    let ?w2 = "se_write ex_env OP_CheckMac 0x01 (ucast (1 :: u8))
        (checkmac_req ex_env (replicate 32 0x55) ?tk ?od) 77 st3"
    have w1: "?w1 = written ex_env OP_Nonce 0 0 ?numin 20 ?st2"
      by (intro se_write_written) simp
    have st3w: "st3 = se_sleep (answered (written ex_env OP_Nonce 0 0 ?numin 20 ?st2))"
      unfolding st3_def w1 ..
    have w2: "?w2 = written ex_env OP_CheckMac 0x01 (ucast (1 :: u8))
        (checkmac_req ex_env (replicate 32 0x55) ?tk ?od) 77 st3"
      by (intro se_write_written) simp
    have rx3: "uart_rx st3 = [serialize (frame [c])]"
      unfolding st3w by simp
    have rb1: "rng_buffer ex_env 32 ?st = (?od, ?st1)"
      by (simp add: rng_buffer_def)
    have rb2: "rng_buffer ex_env 20 ?st1 = (?numin, ?st2)"
      by (simp add: rng_buffer_def)
    have n: "se_pick_nonce ex_env ?numin (replicate 32 0) ?st2 = Some (0, ?tk, st3)"
      unfolding st3w
      using se_pick_nonce_ok [of ?st2 "replicate 32 7" "[serialize (frame [c])]" ?numin ex_env
          "replicate 32 0"]
      by simp
    have r: "se_read1 ?w2 = Some (uint c, answered ?w2)"
      unfolding w2 using se_read1_frame [of "written ex_env OP_CheckMac 0x01 (ucast (1 :: u8))
        (checkmac_req ex_env (replicate 32 0x55) ?tk ?od) 77 st3" c "[]"] rx3 by simp
    show ?thesis
      using se_checkmac_codes [OF rb1 rb2 n, of 1 "replicate 32 0x55" "uint c" "answered ?w2"] r
      by simp
  qed
  show ?thesis
    using a b [of 0] b [of "0xD3"] by simp
qed

text \<open>
  Claim C4. After the pair unlock and the GenDig exchange have succeeded with \<open>digest\<close>,
  \<^verbatim>\<open>se_encrypted_write32\<close> sends one Write command with \<open>p1 = 0x82\<close> whose 64-byte body is
  the byte-wise XOR of the 32-byte plaintext with the digest, followed by the tag
  SHA256(digest || {Write opcode, p1, p2_lsb, p2_msb, 0xEE, 0x01, 0x23} || 25 zero bytes ||
  plaintext). The tag is computed over the plaintext, not over the ciphertext. The second
  part states what the command puts on the wire: the wake byte, then the pulses of the
  header, of this body and of the CRC.
\<close>

theorem se_encrypted_write32_body:
  fixes data digest :: "u8 list" and data_slot blk :: int and env :: se_env
  defines "p2_lsb \<equiv> (word_of_int (push_bit 3 data_slot) :: u8)"
    and "p2_msb \<equiv> (word_of_int blk :: u8)"
  defines "tag \<equiv> sha256 env (digest
      @ [opcode_byte env OP_Write, 0x82, p2_lsb, p2_msb, 0xEE, 0x01, 0x23]
      @ replicate 25 0 @ data)"
  defines "body \<equiv> map2 (XOR) data digest @ tag"
  defines "cmd \<equiv> se_write env OP_Write 0x82 (push_bit 8 (ucast p2_msb) OR ucast p2_lsb) body 64"
  assumes "se_pair_unlock env st = Some (rc1, st1)" and "0 \<le> rc1"
    and "se_gendig_slot env write_kn write_key (replicate 32 0) st1 = Some (rc2, digest, st2)"
    and "0 \<le> rc2"
    and "length data = 32" and "length digest = 32" and "length tag = 32"
  shows "se_encrypted_write32 env data_slot blk write_kn write_key data st =
       (case se_read1 (cmd st2) of
          None \<Rightarrow> None
        | Some (rc, st4) \<Rightarrow> Some (if rc = 0 then 0 else - 1, se_sleep st4))
     \<and> uart_tx (cmd st2) =
         rev (0 # serialize ([IOFLAG_CMD, 71, opcode_byte env OP_Write, 0x82, p2_lsb, p2_msb]
                @ body
                @ [fst (se_crc16_chain 64 body
                      (se_crc16_chain 5 [71, opcode_byte env OP_Write, 0x82, p2_lsb, p2_msb] (0, 0))),
                   snd (se_crc16_chain 64 body
                      (se_crc16_chain 5 [71, opcode_byte env OP_Write, 0x82, p2_lsb, p2_msb] (0, 0)))]))
         @ uart_tx st2"
proof
  have x: "map (\<lambda>i. (data ! i) XOR (digest ! i)) [0..<32] = map2 (XOR) data digest"
    using assms by (intro xor_map2) simp_all
  show "se_encrypted_write32 env data_slot blk write_kn write_key data st =
       (case se_read1 (cmd st2) of
          None \<Rightarrow> None
        | Some (rc, st4) \<Rightarrow> Some (if rc = 0 then 0 else - 1, se_sleep st4))"
    unfolding cmd_def body_def tag_def p2_lsb_def p2_msb_def x [symmetric]
    using se_encrypted_write32_result [OF assms(6), of data_slot blk write_kn write_key data]
      assms(7-)
    by (auto split: option.splits)
  have lb: "length body = 64"
    using assms by (simp add: body_def)
  have w: "cmd st2 = written env OP_Write 0x82 (push_bit 8 (ucast p2_msb) OR ucast p2_lsb) body 64 st2"
    unfolding cmd_def by (intro se_write_written) (simp add: lb)
  show "uart_tx (cmd st2) =
         rev (0 # serialize ([IOFLAG_CMD, 71, opcode_byte env OP_Write, 0x82, p2_lsb, p2_msb]
                @ body
                @ [fst (se_crc16_chain 64 body
                      (se_crc16_chain 5 [71, opcode_byte env OP_Write, 0x82, p2_lsb, p2_msb] (0, 0))),
                   snd (se_crc16_chain 64 body
                      (se_crc16_chain 5 [71, opcode_byte env OP_Write, 0x82, p2_lsb, p2_msb] (0, 0)))]))
         @ uart_tx st2"
    unfolding w written_simps command_bytes_def Let_def p2_split using lb
    by simp
qed

theorem se_encrypted_write32_body_witness:
  "map_option fst (se_encrypted_write32 ex_env 3 1 2 (replicate 32 9) (replicate 32 0xAA)
      (ex_state [serialize (frame (replicate 32 7)), serialize (frame [0]),
                 serialize (frame (replicate 32 8)), serialize (frame [0]),
                 serialize (frame [0])])) = Some 0"
proof -
  let ?st = "ex_state [serialize (frame (replicate 32 7)), serialize (frame [0]),
                 serialize (frame (replicate 32 8)), serialize (frame [0]),
                 serialize (frame [0])]"
  let ?data = "replicate 32 (0xAA :: u8)"
  obtain st1 where pu: "se_pair_unlock ex_env ?st = Some (0, st1)"
    and s1: "uart_rx st1 = serialize (frame (replicate 32 8)) # serialize (frame [0])
        # serialize (frame [0]) # []"
    using se_pair_unlock_ok [of ?st "replicate 32 7" _ ex_env] by auto
  obtain digest st2 where gd: "se_gendig_slot ex_env 2 (replicate 32 9) (replicate 32 0) st1 =
      Some (0, digest, st2)"
    and s2: "uart_rx st2 = serialize (frame [0]) # []"
    using se_gendig_slot_ok [OF s1, of ex_env 2 "replicate 32 9" "replicate 32 0"] by auto
  have ld: "length digest = 32"
    using se_gendig_slot_ok [OF s1, of ex_env 2 "replicate 32 9" "replicate 32 0"] gd by auto
  define tag where "tag = sha256 ex_env (digest
      @ [opcode_byte ex_env OP_Write, 0x82, word_of_int (push_bit 3 3), word_of_int 1, 0xEE, 0x01, 0x23]
      @ replicate 25 0 @ ?data)"
  define cmd where "cmd = se_write ex_env OP_Write 0x82
      (push_bit 8 (ucast (word_of_int 1 :: u8)) OR ucast (word_of_int (push_bit 3 3) :: u8))
      (map2 (XOR) ?data digest @ tag) 64"
  have lb: "length (map2 (XOR) ?data digest @ tag) = 64"
    using ld by (simp add: tag_def)
  have w: "cmd st2 = written ex_env OP_Write 0x82
      (push_bit 8 (ucast (word_of_int 1 :: u8)) OR ucast (word_of_int (push_bit 3 3) :: u8))
      (map2 (XOR) ?data digest @ tag) 64 st2"
    unfolding cmd_def by (intro se_write_written) (simp only: lb, simp)
  have r: "se_read1 (cmd st2) = Some (0, answered (cmd st2))"
    unfolding w using se_read1_frame [of _ 0 "[]"] s2 by simp
  have "se_encrypted_write32 ex_env 3 1 2 (replicate 32 9) ?data ?st =
       (case se_read1 (cmd st2) of
          None \<Rightarrow> None
        | Some (rc, st4) \<Rightarrow> Some (if rc = 0 then 0 else - 1, se_sleep st4))"
    unfolding cmd_def tag_def
    using se_encrypted_write32_body [OF pu _ gd _ _ ld, of ?data 3 1, THEN conjunct1]
    by simp
  then show ?thesis
    unfolding r by simp
qed

text \<open>
  Claim C10. For a length \<open>len\<close> that does not exceed the caller's buffer,
  \<^verbatim>\<open>se_encrypted_write\<close> is the sequence of \<^verbatim>\<open>se_encrypted_write32\<close> calls on the blocks of
  the first \<open>min len 96\<close> bytes: 32 bytes each, block numbers from 0, the last block
  filled up with zeros, at most 3 of them, stopping with -1 at the first call that fails.
  Only those first bytes of the buffer enter the result. For \<open>len > 96\<close> the call is the
  same as the call with \<open>len = 96\<close>: the bytes from index 96 on are not written, and the
  return value does not show it.
\<close>

theorem se_encrypted_write_blocks_of_three:
  "(0 \<le> len \<and> nat len \<le> length data \<longrightarrow>
      se_encrypted_write env data_slot write_kn write_key data len st =
        write_blocks env data_slot write_kn write_key 0
          (padded_blocks (take (min (nat len) 96) data)) st
      \<and> length (padded_blocks (take (min (nat len) 96) data)) \<le> 3
      \<and> (\<forall>b \<in> set (padded_blocks (take (min (nat len) 96) data)). length b = 32))
   \<and> (96 < len \<and> nat len \<le> length data \<longrightarrow>
      se_encrypted_write env data_slot write_kn write_key data len st =
        se_encrypted_write env data_slot write_kn write_key data 96 st)
   \<and> (len \<le> 0 \<longrightarrow> se_encrypted_write env data_slot write_kn write_key data len st = Some (0, st))"
proof (intro conjI impI)
  assume a: "0 \<le> len \<and> nat len \<le> length data"
  then show "se_encrypted_write env data_slot write_kn write_key data len st =
        write_blocks env data_slot write_kn write_key 0
          (padded_blocks (take (min (nat len) 96) data)) st"
    by (intro se_encrypted_write_blocks) simp_all
  have "length (take (min (nat len) 96) data) \<le> 96"
    by simp
  then show "length (padded_blocks (take (min (nat len) 96) data)) \<le> 3"
    unfolding length_padded_blocks by arith
  show "\<forall>b \<in> set (padded_blocks (take (min (nat len) 96) data)). length b = 32"
    by (auto simp: padded_blocks_def)
next
  assume a: "96 < len \<and> nat len \<le> length data"
  then have m: "min (nat len) 96 = 96" "min (nat (96 :: int)) 96 = 96"
    by arith+
  have l96: "96 \<le> length data"
    using a by arith
  have "se_encrypted_write env data_slot write_kn write_key data len st =
        write_blocks env data_slot write_kn write_key 0 (padded_blocks (take 96 data)) st"
    using se_encrypted_write_blocks [of len data env data_slot write_kn write_key st] a m by simp
  moreover have "se_encrypted_write env data_slot write_kn write_key data 96 st =
        write_blocks env data_slot write_kn write_key 0 (padded_blocks (take 96 data)) st"
    using se_encrypted_write_blocks [of 96 data env data_slot write_kn write_key st] l96 by simp
  ultimately show "se_encrypted_write env data_slot write_kn write_key data len st =
        se_encrypted_write env data_slot write_kn write_key data 96 st"
    by simp
next
  assume "len \<le> 0"
  then show "se_encrypted_write env data_slot write_kn write_key data len st = Some (0, st)"
    unfolding se_encrypted_write_def by (subst se_encrypted_write_loop.simps) simp
qed

theorem se_encrypted_write_blocks_of_three_witness:
  "map_option fst (se_encrypted_write ex_env 3 2 (replicate 32 9) (replicate 100 0xAA) 100
      (ex_state (concat (replicate 3 (ok_trains (replicate 32 7)))))) = Some 0
   \<and> se_encrypted_write ex_env 3 2 (replicate 32 9) (replicate 100 0xAA) 100
        (ex_state (concat (replicate 3 (ok_trains (replicate 32 7))))) =
      se_encrypted_write ex_env 3 2 (replicate 32 9) (replicate 100 0xAA) 96
        (ex_state (concat (replicate 3 (ok_trains (replicate 32 7)))))
   \<and> se_encrypted_write ex_env 3 2 (replicate 32 9) (replicate 100 0xAA) 40 (ex_state []) =
      write_blocks ex_env 3 2 (replicate 32 9) 0
        [replicate 32 0xAA, replicate 8 0xAA @ replicate 24 0] (ex_state [])
   \<and> se_encrypted_write ex_env 3 2 (replicate 32 9) (replicate 100 0xAA) 0 (ex_state []) =
      Some (0, ex_state [])"
proof -
  let ?key = "replicate 32 (9 :: u8)"
  let ?data = "replicate 100 (0xAA :: u8)"
  let ?st = "ex_state (concat (replicate 3 (ok_trains (replicate 32 7))))"
  note c10 = se_encrypted_write_blocks_of_three [of _ ?data ex_env 3 2 ?key]
  have m: "min (nat (100 :: int)) 96 = 96" "min (nat (40 :: int)) 96 = 40"
    by simp_all
  have e100: "se_encrypted_write ex_env 3 2 ?key ?data 100 ?st =
      write_blocks ex_env 3 2 ?key 0 (padded_blocks (take 96 ?data)) ?st"
    using c10 [of 100 ?st, THEN conjunct1] unfolding m by simp
  define bs :: "u8 list list" where "bs = padded_blocks (take 96 ?data)"
  have lbs: "length bs = 3"
    unfolding bs_def padded_blocks_ex96 by simp
  have rx: "uart_rx ?st = concat (replicate (length bs) (ok_trains (replicate 32 7))) @ []"
    unfolding lbs by simp
  have l7: "length (replicate 32 (7 :: u8)) = 32"
    by simp
  have "\<exists>st'. write_blocks ex_env 3 2 ?key 0 bs ?st = Some (0, st') \<and> uart_rx st' = []"
    using l7 _ rx by (rule write_blocks_ok) simp
  then obtain st' where "write_blocks ex_env 3 2 ?key 0 (padded_blocks (take 96 ?data)) ?st = Some (0, st')"
    unfolding bs_def by blast
  then have a: "map_option fst (se_encrypted_write ex_env 3 2 ?key ?data 100 ?st) = Some 0"
    unfolding e100 by simp
  have b: "se_encrypted_write ex_env 3 2 ?key ?data 100 ?st =
      se_encrypted_write ex_env 3 2 ?key ?data 96 ?st"
    using c10 [of 100 ?st, THEN conjunct2, THEN conjunct1] by simp
  have c: "se_encrypted_write ex_env 3 2 ?key ?data 40 (ex_state []) =
      write_blocks ex_env 3 2 ?key 0 [replicate 32 0xAA, replicate 8 0xAA @ replicate 24 0] (ex_state [])"
    using c10 [of 40 "ex_state []", THEN conjunct1] unfolding m padded_blocks_ex40 by simp
  have d: "se_encrypted_write ex_env 3 2 ?key ?data 0 (ex_state []) = Some (0, ex_state [])"
    using c10 [of 0 "ex_state []", THEN conjunct2, THEN conjunct2] by simp
  show ?thesis
    using a b c d by (intro conjI)
qed



end
